(* ===== verification/Manet_Prelude.thy ===== *)
theory Manet_Prelude
  imports Main "HOL-Library.Word" "HOL-Library.Monad_Syntax"
begin

text \<open>
  Shared vocabulary of the development: the machine types, the C library's error numbers,
  the two status enumerations of \<^verbatim>\<open>include/manet/transport/status.hpp\<close> and
  \<^verbatim>\<open>include/manet/protocol/status.hpp\<close>, memory slices and memory writes, and the generic
  facts about lists, options and words that the component theories use.

  Conventions used everywhere:
  \<^item> a C++ function whose behaviour may be undefined (an out-of-range access, a use of an
    indeterminate or dangling value) or that may loop for ever returns an \<open>option\<close>;
    \<open>None\<close> stands for ``no defined result'', so a theorem with \<open>Some\<close> on its right
    hand side states that the call returns and is defined;
  \<^item> an object of the program that is not part of the repository (the kernel, F-Stack, OpenSSL,
    the random device, the user's codec) is a function argument over a world \<open>'w\<close>;
  \<^item> \<open>std::size_t\<close> values that index a buffer are \<open>nat\<close>; sizes taken from the wire are
    \<open>64 word\<close> and wrap around as \<open>uint64_t\<close> does.
\<close>

unbundle bit_operations_syntax

section \<open>Machine types\<close>

type_synonym byte = "8 word"
type_synonym u16 = "16 word"
type_synonym u32 = "32 word"
type_synonym u64 = "64 word"

text \<open>
  The error numbers the sources compare \<open>errno\<close> with; every other value is \<open>Errno n\<close>.
\<close>

datatype errno =
    EAGAIN | EWOULDBLOCK | EINTR | EINPROGRESS | ECONNREFUSED | EINVAL
  | ENOENT | EEXIST | EBADF | Errno int

section \<open>Status values\<close>

datatype transport_status = T_ok | T_close | T_error | T_want_read | T_want_write

datatype protocol_status = P_ok | P_close | P_error

definition transport_to_string :: "transport_status \<Rightarrow> string" where
  "transport_to_string s =
     (case s of T_ok \<Rightarrow> ''ok'' | T_close \<Rightarrow> ''close'' | T_error \<Rightarrow> ''error''
      | T_want_read \<Rightarrow> ''want_read'' | T_want_write \<Rightarrow> ''want_write'')"

definition protocol_to_string :: "protocol_status \<Rightarrow> string" where
  "protocol_to_string s = (case s of P_ok \<Rightarrow> ''ok'' | P_close \<Rightarrow> ''close'' | P_error \<Rightarrow> ''error'')"

section \<open>Memory\<close>

text \<open>
  \<open>subspan off n xs\<close> is the view \<open>xs.subspan(off, n)\<close> of an array; \<open>blit off ys xs\<close> is
  the array after \<open>memcpy(xs + off, ys, length ys)\<close>.  Both are only meaningful in range.
\<close>

definition subspan :: "nat \<Rightarrow> nat \<Rightarrow> 'a list \<Rightarrow> 'a list" where
  "subspan off n xs = take n (drop off xs)"

definition blit :: "nat \<Rightarrow> 'a list \<Rightarrow> 'a list \<Rightarrow> 'a list" where
  "blit off ys xs = take off xs @ ys @ drop (off + length ys) xs"

text \<open>\<open>require\<close> is the precondition of an operation whose violation is undefined behaviour.\<close>

definition require :: "bool \<Rightarrow> unit option" where
  "require p = (if p then Some () else None)"

section \<open>Collections of facts\<close>

named_theorems defined_iff \<open>when an operation that may be undefined returns\<close>

named_theorems buffer_simps \<open>equations of the buffer operations\<close>

section \<open>Generic lemmas\<close>

lemma bind_Some_iff [defined_iff]:
  "Option.bind m f = Some y \<longleftrightarrow> (\<exists>x. m = Some x \<and> f x = Some y)"
  by (cases m) auto

lemma require_Some [defined_iff, simp]: "require p = Some u \<longleftrightarrow> p"
  by (simp add: require_def)

lemma require_simps [simp]: "require True = Some ()" "require False = None"
  by (simp_all add: require_def)

lemma require_None [simp]: "require p = None \<longleftrightarrow> \<not> p"
  by (simp add: require_def)

lemma length_subspan [simp]: "length (subspan off n xs) = min n (length xs - off)"
  by (simp add: subspan_def)

lemma subspan_0 [simp]: "subspan off 0 xs = []"
  by (simp add: subspan_def)

lemma subspan_whole: "subspan 0 (length xs) xs = xs"
  by (simp add: subspan_def)

lemma length_blit [simp]: "off + length ys \<le> length xs \<Longrightarrow> length (blit off ys xs) = length xs"
  by (simp add: blit_def)

lemma subspan_blit_same: "off + length ys \<le> length xs \<Longrightarrow> subspan off (length ys) (blit off ys xs) = ys"
  by (simp add: subspan_def blit_def)

lemma subspan_blit_before:
  "a + n \<le> off \<Longrightarrow> off + length ys \<le> length xs \<Longrightarrow> subspan a n (blit off ys xs) = subspan a n xs"
  by (auto simp: subspan_def blit_def drop_take min_def)

lemma subspan_append: "subspan a (m + n) xs = subspan a m xs @ subspan (a + m) n xs"
  by (simp add: subspan_def take_add add.commute)

lemma drop_subspan: "drop k (subspan a n xs) = subspan (a + k) (n - k) xs"
  by (simp add: subspan_def drop_take add.commute)

lemma take_subspan: "k \<le> n \<Longrightarrow> take k (subspan a n xs) = subspan a k xs"
  by (simp add: subspan_def)

lemma nth_subspan: "i < n \<Longrightarrow> a + n \<le> length xs \<Longrightarrow> subspan a n xs ! i = xs ! (a + i)"
  by (simp add: subspan_def)

lemma drop_length_append: "length xs = n \<Longrightarrow> zs = xs @ ys \<Longrightarrow> drop n zs = ys"
  by simp

lemma drop_ConsD: "drop i xs = y # ys \<Longrightarrow> i < length xs \<and> xs ! i = y \<and> drop (Suc i) xs = ys"
  by (metis drop_Suc drop_all list.distinct(1) list.sel(3) not_le nth_via_drop tl_drop)

section \<open>Partial correctness\<close>

text \<open>
  \<open>ensures P m\<close>: if the computation \<open>m\<close> has a result, the result satisfies \<open>P\<close>.  Its
  equations push a postcondition through the binds of a model function.
\<close>

definition ensures :: "('a \<Rightarrow> bool) \<Rightarrow> 'a option \<Rightarrow> bool" where
  "ensures P m \<longleftrightarrow> (\<forall>x. m = Some x \<longrightarrow> P x)"

lemma ensures_None [simp]: "ensures P None"
  by (simp add: ensures_def)

lemma ensures_Some [simp]: "ensures P (Some x) = P x"
  by (simp add: ensures_def)

lemma ensures_bind [simp]: "ensures P (Option.bind m f) = ensures (\<lambda>x. ensures P (f x)) m"
  by (cases m) (auto simp: ensures_def)

lemma ensures_map [simp]: "ensures P (map_option g m) = ensures (\<lambda>x. P (g x)) m"
  by (cases m) (auto simp: ensures_def)

lemma ensures_case_option:
  "ensures P (case m of None \<Rightarrow> None | Some x \<Rightarrow> f x) = ensures (\<lambda>x. ensures P (f x)) m"
  by (cases m) (auto simp: ensures_def)

lemma bind_None_iff [simp]: "Option.bind m f = None \<longleftrightarrow> m = None \<or> (\<exists>x. m = Some x \<and> f x = None)"
  by (cases m) auto

lemmas ensures_simps = ensures_None ensures_Some ensures_bind ensures_map

lemma ensures_mono: "ensures Q m \<Longrightarrow> (\<And>x. Q x \<Longrightarrow> P x) \<Longrightarrow> ensures P m"
  by (auto simp: ensures_def)

lemma ensures_conj: "ensures P m \<Longrightarrow> ensures Q m \<Longrightarrow> ensures (\<lambda>x. P x \<and> Q x) m"
  by (auto simp: ensures_def)

lemma ensuresD: "ensures P m \<Longrightarrow> m = Some x \<Longrightarrow> P x"
  by (auto simp: ensures_def)

lemma ensuresI: "(\<And>x. m = Some x \<Longrightarrow> P x) \<Longrightarrow> ensures P m"
  by (auto simp: ensures_def)

lemma ensures_any: "(\<And>x. P x) \<Longrightarrow> ensures P m"
  by (auto simp: ensures_def)

section \<open>Total correctness\<close>

text \<open>\<open>returns P m\<close>: the computation \<open>m\<close> has a result, and it satisfies \<open>P\<close>.\<close>

definition returns :: "('a \<Rightarrow> bool) \<Rightarrow> 'a option \<Rightarrow> bool" where
  "returns P m \<longleftrightarrow> (\<exists>x. m = Some x \<and> P x)"

lemma returns_simps [simp]:
  "\<not> returns P None" "returns P (Some x) = P x"
  "returns P (Option.bind m f) = returns (\<lambda>x. returns P (f x)) m"
  by (cases m; simp add: returns_def)+

lemma returns_map [simp]: "returns P (map_option g m) = returns (\<lambda>x. P (g x)) m"
  by (cases m) (auto simp: returns_def)

lemma returns_mono: "returns Q m \<Longrightarrow> (\<And>x. Q x \<Longrightarrow> P x) \<Longrightarrow> returns P m"
  by (auto simp: returns_def)

lemma returnsE: "returns P m \<Longrightarrow> (\<And>x. m = Some x \<Longrightarrow> P x \<Longrightarrow> thesis) \<Longrightarrow> thesis"
  by (auto simp: returns_def)

end
