(* ===== verification/Net.thy ===== *)
theory Net
  imports Manet_Prelude
begin

text \<open>
  \<^verbatim>\<open>include/manet/net/concepts.hpp\<close> and \<^verbatim>\<open>include/manet/net/dial.hpp\<close>: the interface a
  network backend offers and the connection attempt over the addresses of a host.  A backend is
  the record \<open>net\<close> of its operations over a world \<open>'w\<close>; an operation that can fail returns
  the C return value together with the value of \<open>errno\<close> after the call.  Every descriptor that
  is opened, closed, cleared or subscribed is also recorded in a log (newest entry first), which
  is how the theorems speak about the order of the calls.
\<close>

section \<open>The backend interface\<close>

type_synonym fd = int
type_synonym ptr = nat

record ('w, 'ev) net =
  net_socket :: "int \<Rightarrow> int \<Rightarrow> int \<Rightarrow> 'w \<Rightarrow> (fd \<times> errno) \<times> 'w"
  net_ioctl :: "fd \<Rightarrow> int \<Rightarrow> int \<Rightarrow> 'w \<Rightarrow> (int \<times> errno) \<times> 'w"
  net_connect :: "fd \<Rightarrow> byte list \<Rightarrow> nat \<Rightarrow> 'w \<Rightarrow> (int \<times> errno) \<times> 'w"
  net_close :: "fd \<Rightarrow> 'w \<Rightarrow> int \<times> 'w"
  net_getsockopt :: "fd \<Rightarrow> int \<Rightarrow> int \<Rightarrow> 'w \<Rightarrow> (int \<times> int) \<times> 'w"
  net_read :: "fd \<Rightarrow> nat \<Rightarrow> 'w \<Rightarrow> (int \<times> errno \<times> byte list) \<times> 'w"
  net_write :: "fd \<Rightarrow> byte list \<Rightarrow> 'w \<Rightarrow> (int \<times> errno) \<times> 'w"
  net_stop :: "'w \<Rightarrow> 'w"
  net_poll :: "nat \<Rightarrow> 'w \<Rightarrow> (int \<times> 'ev list) \<times> 'w"
  net_ev_signal :: "'ev \<Rightarrow> 'w \<Rightarrow> bool \<times> 'w"
  net_ev_close :: "'ev \<Rightarrow> bool"
  net_ev_error :: "'ev \<Rightarrow> bool"
  net_ev_readable :: "'ev \<Rightarrow> bool"
  net_ev_writeable :: "'ev \<Rightarrow> bool"
  net_get_user_data :: "'ev \<Rightarrow> ptr"
  net_subscribe :: "ptr \<Rightarrow> fd \<Rightarrow> bool \<Rightarrow> bool \<Rightarrow> 'w \<Rightarrow> 'w"
  net_clear :: "fd \<Rightarrow> 'w \<Rightarrow> 'w"

text \<open>
  The documented behaviour of \<open>read\<close> and \<open>write\<close>: the result is -1 or at most the
  requested number of bytes, and a successful \<open>read\<close> delivers as many bytes as it reports.
\<close>

definition net_wf :: "('w, 'ev) net \<Rightarrow> bool" where
  "net_wf N \<longleftrightarrow>
     (\<forall>f n w len e bs w'. net_read N f n w = ((len, e, bs), w') \<longrightarrow>
        -1 \<le> len \<and> len \<le> int n \<and> (0 < len \<longrightarrow> length bs = nat len)) \<and>
     (\<forall>f bs w len e w'. net_write N f bs w = ((len, e), w') \<longrightarrow> -1 \<le> len \<and> len \<le> int (length bs))"

section \<open>Descriptor log\<close>

datatype call =
    C_open fd | C_close fd | C_clear fd | C_subscribe fd bool bool

text \<open>
  The descriptor held after a log, \<open>None\<close> when the log misuses a descriptor: one is opened only
  when none is held, and only the held one is closed, cleared or subscribed.
\<close>

fun replay :: "call list \<Rightarrow> fd option" where
  "replay [] = Some (-1)"
| "replay (C_open f # l) = (if replay l = Some (-1) \<and> 0 \<le> f then Some f else None)"
| "replay (C_close f # l) = (if replay l = Some f \<and> 0 \<le> f then Some (-1) else None)"
| "replay (C_clear f # l) = (if replay l = Some f \<and> 0 \<le> f then Some f else None)"
| "replay (C_subscribe f r w # l) = (if replay l = Some f then Some f else None)"

text \<open>What the backend watches for after a log: the interest of the last subscription.\<close>

fun wants_read :: "call list \<Rightarrow> bool" where
  "wants_read (C_subscribe f r w # l) = r"
| "wants_read l = False"

fun wants_write :: "call list \<Rightarrow> bool" where
  "wants_write (C_subscribe f r w # l) = w"
| "wants_write l = False"

section \<open>Dialling\<close>

record addrinfo =
  ai_family :: int
  ai_socktype :: int
  ai_protocol :: int
  ai_addr :: "byte list"
  ai_addrlen :: nat

text \<open>
  The resolver of the C library: \<open>getaddrinfo\<close> with the hints the source fills in, and
  \<open>freeaddrinfo\<close>.
\<close>

record 'w resolver =
  getaddrinfo :: "string \<Rightarrow> string \<Rightarrow> int \<times> int \<times> int \<times> int \<Rightarrow> 'w \<Rightarrow> (int \<times> addrinfo list) \<times> 'w"
  freeaddrinfo :: "addrinfo list \<Rightarrow> 'w \<Rightarrow> 'w"

definition AF_INET :: int where "AF_INET = 2"
definition SOCK_STREAM :: int where "SOCK_STREAM = 1"
definition IPPROTO_TCP :: int where "IPPROTO_TCP = 6"
definition AI_ADDRCONFIG :: int where "AI_ADDRCONFIG = 0x20"
definition FIONBIO :: int where "FIONBIO = 0x5421"

text \<open>\<open>err = None\<close> is the value 0.\<close>

record dial_result =
  dr_fd :: fd
  dr_err :: "errno option"

text \<open>\<open>std::to_string\<close> of an unsigned value.\<close>

fun to_string_nat :: "nat \<Rightarrow> string" where
  "to_string_nat n =
     (if n < 10 then [char_of (48 + n)] else to_string_nat (n div 10) @ [char_of (48 + n mod 10)])"

declare to_string_nat.simps [simp del]

fun dial_loop ::
    "('w, 'ev) net \<Rightarrow> addrinfo list \<Rightarrow> dial_result \<Rightarrow> call list \<Rightarrow> 'w \<Rightarrow> dial_result \<times> call list \<times> 'w" where
  "dial_loop N [] result l w = (result, l, w)"
| "dial_loop N (ai # ais) result l w =
     (let ((socketfd, e), w) = net_socket N (ai_family ai) (ai_socktype ai) (ai_protocol ai) w in
      if socketfd < 0 then dial_loop N ais (result\<lparr>dr_err := Some e\<rparr>) l w
      else
        let l = C_open socketfd # l; ((rc, e), w) = net_ioctl N socketfd FIONBIO 1 w in
        if rc < 0 then
          let (_, w) = net_close N socketfd w in
          dial_loop N ais (result\<lparr>dr_err := Some e\<rparr>) (C_close socketfd # l) w
        else
          let ((ok, e), w) = net_connect N socketfd (ai_addr ai) (ai_addrlen ai) w in
          if ok = 0 then (\<lparr>dr_fd = socketfd, dr_err = None\<rparr>, l, w)
          else if e = EINPROGRESS then (\<lparr>dr_fd = socketfd, dr_err = Some e\<rparr>, l, w)
          else
            let (_, w) = net_close N socketfd w in
            dial_loop N ais (result\<lparr>dr_err := Some e\<rparr>) (C_close socketfd # l) w)"

definition dial ::
    "('w, 'ev) net \<Rightarrow> 'w resolver \<Rightarrow> string \<Rightarrow> u16 \<Rightarrow> call list \<Rightarrow> 'w \<Rightarrow> dial_result \<times> call list \<times> 'w" where
  "dial N R host port l w =
     (let result = \<lparr>dr_fd = -1, dr_err = Some ECONNREFUSED\<rparr>;
          sport = to_string_nat (unat port);
          ((gai, res), w) = getaddrinfo R host sport (AF_INET, SOCK_STREAM, IPPROTO_TCP, AI_ADDRCONFIG) w
      in
        if gai \<noteq> 0 then (result\<lparr>dr_err := Some EINVAL\<rparr>, l, w)
        else
          let (result, l, w) = dial_loop N res result l w in (result, l, freeaddrinfo R res w))"

section \<open>Helper lemmas\<close>

lemma net_wf_read:
  "net_wf N \<Longrightarrow> net_read N f n w = ((len, e, bs), w') \<Longrightarrow>
     -1 \<le> len \<and> len \<le> int n \<and> (0 < len \<longrightarrow> length bs = nat len)"
  unfolding net_wf_def by blast

lemma net_wf_write:
  "net_wf N \<Longrightarrow> net_write N f bs w = ((len, e), w') \<Longrightarrow> -1 \<le> len \<and> len \<le> int (length bs)"
  unfolding net_wf_def by blast

lemma dial_loop_log:
  assumes "dial_loop N ais result l w = (result', l', w')"
    and "replay l = Some (-1)" and "dr_fd result = -1"
  shows "replay l' = Some (dr_fd result')
     \<and> (dr_fd result' = -1 \<or> 0 \<le> dr_fd result' \<and> dr_err result' \<in> {None, Some EINPROGRESS})"
  using assms
proof (induction ais arbitrary: result l w)
  case Nil
  then show ?case by simp
next
  case (Cons ai ais)
  obtain socketfd e w1 where sock: "net_socket N (ai_family ai) (ai_socktype ai) (ai_protocol ai) w = ((socketfd, e), w1)"
    by (metis surj_pair)
  obtain rc e2 w2 where ctl: "net_ioctl N socketfd FIONBIO 1 w1 = ((rc, e2), w2)"
    by (metis surj_pair)
  obtain ok e3 w3 where con: "net_connect N socketfd (ai_addr ai) (ai_addrlen ai) w2 = ((ok, e3), w3)"
    by (metis surj_pair)
  note loop = Cons.prems(1) [unfolded dial_loop.simps sock ctl con Let_def prod.case, simplified]
  show ?case
  proof (cases "socketfd < 0")
    case True
    with Cons.IH loop Cons.prems(2,3) show ?thesis by simp
  next
    case open_ok: False
    then have l2: "replay (C_close socketfd # C_open socketfd # l) = Some (-1)"
      using Cons.prems(2) by simp
    show ?thesis
      using Cons.IH [OF _ l2] loop Cons.prems(2,3) open_ok
      by (auto simp: case_prod_unfold ctl con split: if_splits)
  qed
qed

lemma dial_log:
  assumes "dial N R host port l w = (result, l', w')" and "replay l = Some (-1)"
  shows "replay l' = Some (dr_fd result)
     \<and> (dr_fd result = -1 \<or> 0 \<le> dr_fd result \<and> dr_err result \<in> {None, Some EINPROGRESS})"
  using assms dial_loop_log [where N = N and l = l]
  by (auto simp: dial_def Let_def split: prod.splits if_splits)

end
