(* ===== verification/Buffer.thy ===== *)
theory Buffer
  imports Manet_Prelude
begin

text \<open>
  \<^verbatim>\<open>include/manet/reactor/buffer.hpp\<close> and \<^verbatim>\<open>include/manet/reactor/io.hpp\<close>: the linear byte
  buffer behind every connection's receive and transmit side, and the \<open>Input\<close> and
  \<open>Output\<close> views the transport and the protocol get of it.  The array \<open>_buf\<close> is the list
  \<open>mem\<close>, whose length is the template argument \<open>CAP\<close>; \<open>_rpos\<close> and \<open>_wpos\<close> are
  the two positions.  The interface other components rely on is the locale \<open>byte_fifo\<close>,
  interpreted on the buffer at the end.
\<close>

section \<open>State and operations\<close>

record buffer =
  mem :: "byte list"
  rpos :: nat
  wpos :: nat

definition RX_CAP :: nat where
  "RX_CAP = 2 ^ 20"

definition TX_CAP :: nat where
  "TX_CAP = 2 ^ 20"

definition new_buffer :: "nat \<Rightarrow> buffer" where
  "new_buffer CAP = \<lparr>mem = replicate CAP 0, rpos = 0, wpos = 0\<rparr>"

definition cap :: "buffer \<Rightarrow> nat" where
  "cap b = length (mem b)"

definition rbuf :: "buffer \<Rightarrow> byte list" where
  "rbuf b = subspan (rpos b) (wpos b - rpos b) (mem b)"

text \<open>The span \<open>wbuf()\<close> starts at \<open>_wpos\<close>; the model keeps its size.\<close>

definition wbuf_size :: "buffer \<Rightarrow> nat" where
  "wbuf_size b = cap b - wpos b"

definition clear :: "buffer \<Rightarrow> buffer" where
  "clear b = b\<lparr>rpos := 0, wpos := 0\<rparr>"

definition inc_wpos :: "nat \<Rightarrow> buffer \<Rightarrow> buffer" where
  "inc_wpos len b = b\<lparr>wpos := wpos b + len\<rparr>"

definition inc_rpos :: "nat \<Rightarrow> buffer \<Rightarrow> buffer" where
  "inc_rpos len b =
     (let b = b\<lparr>rpos := rpos b + len\<rparr>
      in if rpos b = wpos b then b\<lparr>rpos := 0, wpos := 0\<rparr> else b)"

definition full :: "buffer \<Rightarrow> bool" where
  "full b \<longleftrightarrow> cap b = wpos b"

text \<open>
  \<open>Input::read\<close> and \<open>Output::wrote\<close>.  A client writes through \<open>wbuf().data()\<close>
  (\<open>poke\<close>, a \<open>memcpy\<close> into the span, undefined beyond its end) before it calls
  \<open>wrote\<close>; \<open>emit\<close> is the two calls in a row.
\<close>

definition read :: "nat \<Rightarrow> buffer \<Rightarrow> buffer" where
  "read len rx = inc_rpos len rx"

definition wrote :: "nat \<Rightarrow> buffer \<Rightarrow> buffer" where
  "wrote len tx = inc_wpos len tx"

definition poke :: "byte list \<Rightarrow> buffer \<Rightarrow> buffer option" where
  "poke bs b = do {
     _ \<leftarrow> require (length bs \<le> wbuf_size b);
     Some (b\<lparr>mem := blit (wpos b) bs (mem b)\<rparr>)
   }"

definition emit :: "byte list \<Rightarrow> buffer \<Rightarrow> buffer option" where
  "emit bs b = do { b \<leftarrow> poke bs b; Some (wrote (length bs) b) }"

section \<open>Well-formedness\<close>

definition buffer_wf :: "buffer \<Rightarrow> bool" where
  "buffer_wf b \<longleftrightarrow> rpos b \<le> wpos b \<and> wpos b \<le> cap b"

lemma cap_simps [simp]:
  "cap (b\<lparr>rpos := r\<rparr>) = cap b" "cap (b\<lparr>wpos := w\<rparr>) = cap b" "cap (b\<lparr>mem := m\<rparr>) = length m"
  by (simp_all add: cap_def)

lemma cap_ops [simp]:
  "cap (clear b) = cap b" "cap (inc_wpos n b) = cap b" "cap (inc_rpos n b) = cap b"
  "cap (read n b) = cap b" "cap (wrote n b) = cap b" "cap (new_buffer n) = n"
  by (simp_all add: clear_def inc_wpos_def inc_rpos_def read_def wrote_def new_buffer_def cap_def Let_def)

lemma buffer_wf_new [simp, intro]: "buffer_wf (new_buffer n)"
  by (simp add: buffer_wf_def new_buffer_def cap_def)

lemma buffer_wf_clear [simp, intro]: "buffer_wf (clear b)"
  by (simp add: buffer_wf_def clear_def cap_def)

lemma length_rbuf: "buffer_wf b \<Longrightarrow> length (rbuf b) = wpos b - rpos b"
  by (auto simp: rbuf_def buffer_wf_def cap_def min_def)

lemma rbuf_new [simp]: "rbuf (new_buffer n) = []"
  by (simp add: rbuf_def new_buffer_def)

lemma rbuf_clear [simp]: "rbuf (clear b) = []"
  by (simp add: rbuf_def clear_def)

lemma buffer_wf_inc_rpos:
  "buffer_wf b \<Longrightarrow> n \<le> length (rbuf b) \<Longrightarrow> buffer_wf (inc_rpos n b)"
  by (auto simp: buffer_wf_def inc_rpos_def length_rbuf Let_def)

lemma rbuf_inc_rpos:
  "buffer_wf b \<Longrightarrow> n \<le> length (rbuf b) \<Longrightarrow> rbuf (inc_rpos n b) = drop n (rbuf b)"
  by (auto simp: buffer_wf_def inc_rpos_def length_rbuf Let_def rbuf_def drop_subspan)

lemma emit_Some:
  "emit bs b = Some b' \<longleftrightarrow>
     length bs \<le> wbuf_size b \<and>
     b' = b\<lparr>mem := blit (wpos b) bs (mem b), wpos := wpos b + length bs\<rparr>"
  by (auto simp: emit_def poke_def wrote_def inc_wpos_def defined_iff)

lemma emit_defined: "(\<exists>b'. emit bs b = Some b') \<longleftrightarrow> length bs \<le> wbuf_size b"
  by (auto simp: emit_Some)

lemma emit_cap: "buffer_wf b \<Longrightarrow> emit bs b = Some b' \<Longrightarrow> cap b' = cap b"
  by (auto simp: emit_Some buffer_wf_def wbuf_size_def cap_def)

lemma emit_wf: "buffer_wf b \<Longrightarrow> emit bs b = Some b' \<Longrightarrow> buffer_wf b'"
  by (auto simp: emit_Some buffer_wf_def wbuf_size_def cap_def)

lemma emit_rbuf: "buffer_wf b \<Longrightarrow> emit bs b = Some b' \<Longrightarrow> rbuf b' = rbuf b @ bs"
proof -
  assume wf: "buffer_wf b" and e: "emit bs b = Some b'"
  let ?m = "blit (wpos b) bs (mem b)"
  from wf e have room: "wpos b + length bs \<le> length (mem b)" and le: "rpos b \<le> wpos b"
    and b': "b' = b\<lparr>mem := ?m, wpos := wpos b + length bs\<rparr>"
    by (auto simp: emit_Some buffer_wf_def wbuf_size_def cap_def)
  have "rbuf b' = subspan (rpos b) ((wpos b - rpos b) + length bs) ?m"
    using le by (simp add: rbuf_def b')
  also have "\<dots> = subspan (rpos b) (wpos b - rpos b) ?m @ subspan (wpos b) (length bs) ?m"
    using le by (subst subspan_append) simp
  also have "\<dots> = rbuf b @ bs"
    using room le by (simp add: rbuf_def subspan_blit_before subspan_blit_same)
  finally show ?thesis .
qed

section \<open>The interface: a byte queue\<close>

text \<open>
  What the transport, the protocol and the connection rely on: a buffer holds a sequence of
  unread bytes; writing appends to it while there is room, reading drops a prefix, clearing
  empties it.
\<close>

locale byte_fifo =
  fixes content :: "'b \<Rightarrow> byte list"
    and room :: "'b \<Rightarrow> nat"
    and push :: "byte list \<Rightarrow> 'b \<Rightarrow> 'b option"
    and pop :: "nat \<Rightarrow> 'b \<Rightarrow> 'b"
    and reset :: "'b \<Rightarrow> 'b"
    and invar :: "'b \<Rightarrow> bool"
  assumes push_defined: "invar b \<Longrightarrow> length bs \<le> room b \<Longrightarrow> \<exists>b'. push bs b = Some b'"
    and push_room: "push bs b = Some b' \<Longrightarrow> length bs \<le> room b"
    and push_content: "invar b \<Longrightarrow> push bs b = Some b' \<Longrightarrow> content b' = content b @ bs"
    and push_invar: "invar b \<Longrightarrow> push bs b = Some b' \<Longrightarrow> invar b'"
    and pop_content: "invar b \<Longrightarrow> n \<le> length (content b) \<Longrightarrow> content (pop n b) = drop n (content b)"
    and pop_invar: "invar b \<Longrightarrow> n \<le> length (content b) \<Longrightarrow> invar (pop n b)"
    and reset_content: "content (reset b) = []"
    and reset_invar: "invar b \<Longrightarrow> invar (reset b)"
begin

text \<open>
  A run interleaves pushes (\<open>Inl bs\<close>) and pops (\<open>Inr n\<close>) and collects what was popped;
  it stops with \<open>None\<close> at a push without room or at a pop beyond the content.
\<close>

fun run :: "(byte list + nat) list \<Rightarrow> 'b \<Rightarrow> (byte list \<times> 'b) option" where
  "run [] b = Some ([], b)"
| "run (Inl bs # ops) b = do { b \<leftarrow> push bs b; run ops b }"
| "run (Inr n # ops) b = do {
     _ \<leftarrow> require (n \<le> length (content b));
     (out, b') \<leftarrow> run ops (pop n b);
     Some (take n (content b) @ out, b')
   }"

fun pushed :: "(byte list + nat) list \<Rightarrow> byte list" where
  "pushed [] = []"
| "pushed (Inl bs # ops) = bs @ pushed ops"
| "pushed (Inr n # ops) = pushed ops"

lemma run_fifo:
  "invar b \<Longrightarrow> run ops b = Some (out, b') \<Longrightarrow>
     invar b' \<and> out @ content b' = content b @ pushed ops"
proof (induction ops arbitrary: b out)
  case Nil
  then show ?case by simp
next
  case (Cons op ops)
  show ?case
  proof (cases op)
    case (Inl bs)
    with Cons.prems obtain b1 where b1: "push bs b = Some b1" "run ops b1 = Some (out, b')"
      by (auto simp: defined_iff)
    with Cons.prems(1) have "invar b1" and "content b1 = content b @ bs"
      by (auto intro: push_invar push_content)
    with Cons.IH [OF _ b1(2)] Inl show ?thesis by simp
  next
    case (Inr n)
    with Cons.prems obtain out1 where n: "n \<le> length (content b)"
      and r: "run ops (pop n b) = Some (out1, b')" and out: "out = take n (content b) @ out1"
      by (auto simp: defined_iff split: prod.splits)
    with Cons.prems(1) have "invar (pop n b)" and "content (pop n b) = drop n (content b)"
      by (auto intro: pop_invar pop_content)
    with Cons.IH [OF _ r] have "invar b'" and eq: "out1 @ content b' = drop n (content b) @ pushed ops"
      by simp_all
    have "out @ content b' = take n (content b) @ drop n (content b) @ pushed ops"
      by (simp only: out append_assoc eq)
    with \<open>invar b'\<close> Inr show ?thesis by simp
  qed
qed

end

interpretation bq: byte_fifo rbuf wbuf_size emit read clear buffer_wf
proof unfold_locales
  fix b :: buffer and bs :: "byte list" and b' :: buffer and n :: nat
  show "length bs \<le> wbuf_size b \<Longrightarrow> \<exists>b'. emit bs b = Some b'" by (simp add: emit_defined)
  show "emit bs b = Some b' \<Longrightarrow> length bs \<le> wbuf_size b" by (simp add: emit_Some)
  show "buffer_wf b \<Longrightarrow> emit bs b = Some b' \<Longrightarrow> rbuf b' = rbuf b @ bs" by (rule emit_rbuf)
  show "buffer_wf b \<Longrightarrow> emit bs b = Some b' \<Longrightarrow> buffer_wf b'" by (rule emit_wf)
  show "buffer_wf b \<Longrightarrow> n \<le> length (rbuf b) \<Longrightarrow> rbuf (read n b) = drop n (rbuf b)"
    by (simp add: read_def rbuf_inc_rpos)
  show "buffer_wf b \<Longrightarrow> n \<le> length (rbuf b) \<Longrightarrow> buffer_wf (read n b)"
    by (simp add: read_def buffer_wf_inc_rpos)
  show "rbuf (clear b) = []" by simp
  show "buffer_wf b \<Longrightarrow> buffer_wf (clear b)" by simp
qed

section \<open>Properties\<close>

text \<open>
  An interleaving of writes (\<open>Inl\<close>) and reads (\<open>Inr\<close>) on a buffer, and the bytes the
  reads return: \<open>None\<close> at a write without room or a read beyond the unread bytes.
\<close>

fun buffer_run :: "(byte list + nat) list \<Rightarrow> buffer \<Rightarrow> (byte list \<times> buffer) option" where
  "buffer_run [] b = Some ([], b)"
| "buffer_run (Inl bs # ops) b = do { b \<leftarrow> emit bs b; buffer_run ops b }"
| "buffer_run (Inr n # ops) b = do {
     _ \<leftarrow> require (n \<le> length (rbuf b));
     (out, b') \<leftarrow> buffer_run ops (read n b);
     Some (take n (rbuf b) @ out, b')
   }"

fun written :: "(byte list + nat) list \<Rightarrow> byte list" where
  "written [] = []"
| "written (Inl bs # ops) = bs @ written ops"
| "written (Inr n # ops) = written ops"

lemma buffer_run_bq: "buffer_run ops b = bq.run ops b"
proof (induction ops arbitrary: b)
  case (Cons op ops)
  then have "buffer_run ops = bq.run ops" by (rule ext)
  then show ?case by (cases op) simp_all
qed simp

lemma written_bq: "written ops = bq.pushed ops"
  by (induction ops rule: written.induct) simp_all

text \<open>
  C28: a buffer is a first-in first-out queue of bytes.  Over any interleaving of writes and reads
  that stays in range, what was read followed by what is still unread is what was unread at the
  start followed by what was written: nothing is lost, duplicated or reordered, also across the
  resets of the two positions, and the positions stay inside the array.
\<close>

theorem buffer_fifo:
  assumes "buffer_wf b" "buffer_run ops b = Some (out, b')"
  shows "buffer_wf b' \<and> out @ rbuf b' = rbuf b @ written ops"
  using bq.run_fifo [OF assms(1), of ops out b'] assms(2) by (simp add: buffer_run_bq written_bq)

theorem buffer_fifo_witness:
  "\<exists>out b'. buffer_run [Inl [1, 2, 3], Inr 3, Inl [4, 5], Inr 1] (new_buffer 4) = Some (out, b') \<and>
     out = [1, 2, 3, 4] \<and> rbuf b' = [5] \<and> out @ rbuf b' = [1, 2, 3, 4, 5]"
proof -
  let ?ops = "[Inl [1, 2, 3], Inr 3, Inl [4, 5], Inr 1]"
  have "map_option (\<lambda>(out, b'). (out, rbuf b')) (buffer_run ?ops (new_buffer 4)) = Some ([1, 2, 3, 4], [5])"
    by code_simp
  then obtain b' where r: "buffer_run ?ops (new_buffer 4) = Some ([1, 2, 3, 4], b')" and "rbuf b' = [5]" by auto
  with buffer_fifo [OF buffer_wf_new r] show ?thesis by auto
qed

end
