(* ===== verification/Transport.thy ===== *)
theory Transport
  imports Net Buffer
begin

text \<open>
  \<^verbatim>\<open>include/manet/transport/concepts.hpp\<close> and \<^verbatim>\<open>include/manet/transport/plain.hpp\<close>: the
  interface of a transport and the plain TCP transport.  A transport is the record
  \<open>transport\<close> of the operations of its \<open>Endpoint\<close>; the optional members
  (\<open>handshake_step\<close>, \<open>shutdown_step\<close>) are \<open>None\<close> where the endpoint does not declare
  them.  \<open>t_default\<close> is the default-initialised endpoint a connection starts with.  The laws
  a connection relies on are the locale \<open>transport_laws\<close>, interpreted on \<open>Plain\<close> here and on
  \<open>Tls\<close> in its own theory.
\<close>

section \<open>The transport interface\<close>

record ('w, 'ep, 'cfg) transport =
  t_default :: 'ep
  t_init :: "fd \<Rightarrow> 'cfg \<Rightarrow> 'w \<Rightarrow> ('ep option \<times> 'w) option"
  t_read :: "'ep \<Rightarrow> buffer \<Rightarrow> 'w \<Rightarrow> (transport_status \<times> 'ep \<times> buffer \<times> 'w) option"
  t_write :: "'ep \<Rightarrow> buffer \<Rightarrow> 'w \<Rightarrow> (transport_status \<times> 'ep \<times> buffer \<times> 'w) option"
  t_destroy :: "'ep \<Rightarrow> 'w \<Rightarrow> ('ep \<times> 'w) option"
  t_handshake_step :: "('ep \<Rightarrow> 'w \<Rightarrow> (transport_status \<times> 'ep \<times> 'w) option) option"
  t_shutdown_step :: "('ep \<Rightarrow> 'w \<Rightarrow> (transport_status \<times> 'ep \<times> 'w) option) option"

section \<open>The plain transport\<close>

text \<open>
  \<open>Plain::Endpoint\<close> keeps the descriptor and two function pointers to \<open>Net::read\<close> and
  \<open>Net::write\<close>; before \<open>init\<close> its members are indeterminate (\<open>None\<close>), and using them
  is undefined.
\<close>

type_synonym plain_endpoint = "fd option"

text \<open>\<open>int len = net_write(...)\<close> converts the \<open>ssize_t\<close> result to a 32-bit \<open>int\<close>.\<close>

definition to_int32 :: "int \<Rightarrow> int" where
  "to_int32 n = sint (word_of_int n :: 32 word)"

definition plain_init :: "fd \<Rightarrow> unit \<Rightarrow> 'w \<Rightarrow> (plain_endpoint option \<times> 'w) option" where
  "plain_init f cfg w = Some (Some (Some f), w)"

partial_function (option) plain_read ::
    "('w, 'ev) net \<Rightarrow> plain_endpoint \<Rightarrow> buffer \<Rightarrow> 'w \<Rightarrow>
     (transport_status \<times> plain_endpoint \<times> buffer \<times> 'w) option" where
  "plain_read N ep rx w =
     (case ep of None \<Rightarrow> None | Some f \<Rightarrow>
        (case net_read N f (wbuf_size rx) w of ((len, e, bs), w) \<Rightarrow>
           if 0 < len then do { rx \<leftarrow> poke bs rx; Some (T_ok, ep, wrote (nat len) rx, w) }
           else if len = 0 then Some (T_close, ep, rx, w)
           else if e = EAGAIN \<or> e = EWOULDBLOCK then Some (T_want_read, ep, rx, w)
           else if e = EINTR then plain_read N ep rx w
           else Some (T_error, ep, rx, w)))"

partial_function (option) plain_write ::
    "('w, 'ev) net \<Rightarrow> plain_endpoint \<Rightarrow> buffer \<Rightarrow> 'w \<Rightarrow>
     (transport_status \<times> plain_endpoint \<times> buffer \<times> 'w) option" where
  "plain_write N ep tx w =
     (case ep of None \<Rightarrow> None | Some f \<Rightarrow>
        (case net_write N f (rbuf tx) w of ((n, e), w) \<Rightarrow>
           let len = to_int32 n in
           if 0 \<le> len then Some (T_ok, ep, read (nat len) tx, w)
           else if e = EAGAIN \<or> e = EWOULDBLOCK then Some (T_want_write, ep, tx, w)
           else if e = EINTR then plain_write N ep tx w
           else Some (T_error, ep, tx, w)))"

declare plain_read.simps [code] plain_write.simps [code]

definition plain_destroy :: "plain_endpoint \<Rightarrow> 'w \<Rightarrow> (plain_endpoint \<times> 'w) option" where
  "plain_destroy ep w = Some (ep, w)"

definition Plain :: "('w, 'ev) net \<Rightarrow> ('w, plain_endpoint, unit) transport" where
  "Plain N = \<lparr>t_default = None, t_init = plain_init, t_read = plain_read N, t_write = plain_write N,
     t_destroy = plain_destroy, t_handshake_step = None, t_shutdown_step = None\<rparr>"

section \<open>The laws of a transport\<close>

text \<open>
  \<open>env\<close> is what the transport is built on (a network backend, an SSL library) and
  \<open>env_ok\<close> its documented behaviour.  Reading appends to the receive buffer and reports
  \<open>ok\<close> only when it delivered something; writing drops a prefix of the transmit buffer.  The
  buffers of a connection are smaller than the largest \<open>int\<close>.
\<close>

definition buffer_ok :: "buffer \<Rightarrow> bool" where
  "buffer_ok b \<longleftrightarrow> buffer_wf b \<and> cap b < 2 ^ 31"

definition extends :: "buffer \<Rightarrow> buffer \<Rightarrow> bool" where
  "extends b b' \<longleftrightarrow> buffer_ok b' \<and> cap b' = cap b \<and> (\<exists>bs. rbuf b' = rbuf b @ bs)"

definition shrinks :: "buffer \<Rightarrow> buffer \<Rightarrow> bool" where
  "shrinks b b' \<longleftrightarrow> buffer_ok b' \<and> cap b' = cap b \<and> (\<exists>n. rbuf b' = drop n (rbuf b))"

locale transport_laws =
  fixes tr :: "'env \<Rightarrow> ('w, 'ep, 'cfg) transport"
    and env_ok :: "'env \<Rightarrow> bool"
  assumes read_extends:
    "env_ok env \<Longrightarrow> buffer_ok rx \<Longrightarrow> t_read (tr env) ep rx w = Some (st, ep', rx', w') \<Longrightarrow> extends rx rx'"
    and read_ok_progress:
    "env_ok env \<Longrightarrow> buffer_ok rx \<Longrightarrow> t_read (tr env) ep rx w = Some (T_ok, ep', rx', w') \<Longrightarrow>
       length (rbuf rx) < length (rbuf rx')"
    and write_shrinks:
    "env_ok env \<Longrightarrow> buffer_ok tx \<Longrightarrow> t_write (tr env) ep tx w = Some (st, ep', tx', w') \<Longrightarrow> shrinks tx tx'"

text \<open>
  A transport with a stream: \<open>sent\<close> is what its peer will get.  Writing moves bytes from the
  transmit buffer to the stream and does nothing else.
\<close>

locale stream_transport = transport_laws tr env_ok
  for tr :: "'env \<Rightarrow> ('w, 'ep, 'cfg) transport" and env_ok :: "'env \<Rightarrow> bool" +
  fixes sent :: "'env \<Rightarrow> 'w \<Rightarrow> byte list"
  assumes write_conserves:
    "env_ok env \<Longrightarrow> buffer_ok tx \<Longrightarrow> t_write (tr env) ep tx w = Some (st, ep', tx', w') \<Longrightarrow>
       sent env w' @ rbuf tx' = sent env w @ rbuf tx"
    and destroy_silent:
    "env_ok env \<Longrightarrow> t_destroy (tr env) ep w = Some (ep', w') \<Longrightarrow> sent env w' = sent env w"

text \<open>
  A backend that records what it accepts: \<open>write\<close> appends the bytes it reports to the stream,
  and the calls that only change subscriptions or close leave the stream alone.
\<close>

definition records_writes :: "('w \<Rightarrow> byte list) \<Rightarrow> ('w, 'ev) net \<Rightarrow> bool" where
  "records_writes sent N \<longleftrightarrow> net_wf N \<and>
     (\<forall>f bs w n e w'. net_write N f bs w = ((n, e), w') \<longrightarrow> sent w' = sent w @ take (nat n) bs) \<and>
     (\<forall>k f r v w. sent (net_subscribe N k f r v w) = sent w) \<and>
     (\<forall>f w. sent (net_clear N f w) = sent w) \<and>
     (\<forall>f w. sent (snd (net_close N f w)) = sent w)"

section \<open>Helper lemmas\<close>

lemma buffer_okD [dest]: "buffer_ok b \<Longrightarrow> buffer_wf b" "buffer_ok b \<Longrightarrow> cap b < 2 ^ 31"
  by (simp_all add: buffer_ok_def)

lemma extends_refl [simp]: "buffer_ok b \<Longrightarrow> extends b b"
  by (simp add: extends_def)

lemma shrinks_refl [simp]: "buffer_ok b \<Longrightarrow> shrinks b b"
  by (auto simp: shrinks_def intro: exI [of _ 0])

lemma extends_trans: "extends a b \<Longrightarrow> extends b c \<Longrightarrow> extends a c"
  by (auto simp: extends_def)

lemma shrinks_trans: "shrinks a b \<Longrightarrow> shrinks b c \<Longrightarrow> shrinks a c"
  by (auto simp: shrinks_def)

lemma extends_emit: "buffer_ok b \<Longrightarrow> emit bs b = Some b' \<Longrightarrow> extends b b'"
  by (auto simp: extends_def buffer_ok_def emit_wf emit_cap emit_rbuf)

lemma shrinks_read: "buffer_ok b \<Longrightarrow> n \<le> length (rbuf b) \<Longrightarrow> shrinks b (read n b)"
  by (auto simp: shrinks_def buffer_ok_def read_def buffer_wf_inc_rpos rbuf_inc_rpos)

lemma shrinks_clear: "buffer_ok b \<Longrightarrow> shrinks b (clear b)"
  by (auto simp: shrinks_def buffer_ok_def intro: exI [of _ "length (rbuf b)"])

lemma rbuf_le_cap: "buffer_wf b \<Longrightarrow> length (rbuf b) \<le> cap b"
  by (auto simp: length_rbuf buffer_wf_def)

lemma to_int32_small: "- (2 ^ 31) \<le> n \<Longrightarrow> n < 2 ^ 31 \<Longrightarrow> to_int32 n = n"
  by (simp add: to_int32_def signed_of_int signed_take_bit_int_eq_self)

text \<open>One delivery of \<open>read\<close>: the bytes are stored behind the unread ones.\<close>

lemma poke_wrote_emit:
  "length bs = n \<Longrightarrow> (do { rx \<leftarrow> poke bs rx; Some (wrote n rx) }) = emit bs rx"
  by (simp add: emit_def)

lemma plain_read_spec:
  assumes N: "net_wf N" and rx: "buffer_ok rx"
    and r: "plain_read N ep rx w = Some (st, ep', rx', w')"
  shows "extends rx rx' \<and> (st = T_ok \<longrightarrow> length (rbuf rx) < length (rbuf rx')) \<and> ep' = ep"
proof -
  let ?P = "\<lambda>N ep rx w r. net_wf N \<longrightarrow> buffer_ok rx \<longrightarrow>
    (case r of (st, ep', rx', w') \<Rightarrow>
       extends rx rx' \<and> (st = T_ok \<longrightarrow> length (rbuf rx) < length (rbuf rx')) \<and> ep' = ep)"
  have "?P N ep rx w (st, ep', rx', w')"
  proof (rule plain_read.raw_induct [where P = ?P, OF _ r], goal_cases)
    case (1 rec N ep rx w res)
    then obtain f len e bs w1 where ep: "ep = Some f"
      and nr: "net_read N f (wbuf_size rx) w = ((len, e, bs), w1)"
      by (cases ep; cases "net_read N (the ep) (wbuf_size rx) w") auto
    show ?case
    proof (intro impI)
      assume N: "net_wf N" and rx: "buffer_ok rx"
      with nr have "0 < len \<longrightarrow> length bs = nat len" by (blast dest: net_wf_read)
      then have emit: "emit bs rx = do { rx \<leftarrow> poke bs rx; Some (wrote (nat len) rx) }" if "0 < len"
        using that by (simp add: emit_def)
      note eq = 1(2) [unfolded ep nr option.case prod.case]
      consider "0 < len" | "len = 0" | "len < 0" "e = EAGAIN \<or> e = EWOULDBLOCK"
        | "len < 0" "e = EINTR" | "len < 0" "e \<noteq> EAGAIN" "e \<noteq> EWOULDBLOCK" "e \<noteq> EINTR"
        by fastforce
      then show "case res of (st, ep', rx', w') \<Rightarrow>
        extends rx rx' \<and> (st = T_ok \<longrightarrow> length (rbuf rx) < length (rbuf rx')) \<and> ep' = ep"
      proof cases
        case 1
        with eq obtain rx1 where res: "res = (T_ok, ep, rx1, w1)" and em: "emit bs rx = Some rx1"
          by (auto simp: emit defined_iff ep)
        have "bs \<noteq> []" using nr N 1 by (auto dest: net_wf_read)
        with em rx res extends_emit [OF rx em] emit_rbuf [OF buffer_okD(1) [OF rx] em] show ?thesis
          by simp
      next
        case 4
        with eq have "rec N (Some f) rx w1 = Some res" by simp
        from "1"(1) [OF this] N rx show ?thesis by (simp add: ep)
      qed (use eq rx ep in \<open>auto\<close>)
    qed
  qed
  with N rx show ?thesis by simp
qed

lemma plain_write_spec:
  assumes N: "net_wf N" and tx: "buffer_ok tx"
    and r: "plain_write N ep tx w = Some (st, ep', tx', w')"
  shows "shrinks tx tx' \<and> ep' = ep"
proof -
  let ?P = "\<lambda>N ep tx w r. net_wf N \<longrightarrow> buffer_ok tx \<longrightarrow>
    (case r of (st, ep', tx', w') \<Rightarrow> shrinks tx tx' \<and> ep' = ep)"
  have "?P N ep tx w (st, ep', tx', w')"
  proof (rule plain_write.raw_induct [where P = ?P, OF _ r], goal_cases)
    case (1 rec N ep tx w res)
    then obtain f n e w1 where ep: "ep = Some f"
      and nw: "net_write N f (rbuf tx) w = ((n, e), w1)"
      by (cases ep; cases "net_write N (the ep) (rbuf tx) w") auto
    show ?case
    proof (intro impI)
      assume N: "net_wf N" and tx: "buffer_ok tx"
      with nw have n: "-1 \<le> n" "n \<le> int (length (rbuf tx))" by (auto dest: net_wf_write)
      moreover have "length (rbuf tx) < 2 ^ 31"
        using rbuf_le_cap buffer_okD [OF tx] by (metis order_le_less_trans)
      ultimately have "to_int32 n = n" by (intro to_int32_small) simp_all
      note eq = 1(2) [unfolded ep nw option.case prod.case Let_def \<open>to_int32 n = n\<close>]
      show "case res of (st, ep', tx', w') \<Rightarrow> shrinks tx tx' \<and> ep' = ep"
      proof (cases "n < 0 \<and> e = EINTR")
        case True
        with eq have "rec N (Some f) tx w1 = Some res" by simp
        from "1"(1) [OF this] N tx show ?thesis by (simp add: ep)
      next
        case False
        with eq n(2) tx shrinks_read [OF tx, of "nat n"] show ?thesis
          by (auto simp: ep split: if_splits)
      qed
    qed
  qed
  with N tx show ?thesis by simp
qed

interpretation plain: transport_laws Plain net_wf
proof unfold_locales
  fix N :: "('w, 'ev) net" and rx tx rx' tx' ep ep' st and w w' :: 'w
  assume N: "net_wf N"
  show "buffer_ok rx \<Longrightarrow> t_read (Plain N) ep rx w = Some (st, ep', rx', w') \<Longrightarrow> extends rx rx'"
    using plain_read_spec [OF N] by (simp add: Plain_def)
  show "buffer_ok rx \<Longrightarrow> t_read (Plain N) ep rx w = Some (T_ok, ep', rx', w') \<Longrightarrow>
      length (rbuf rx) < length (rbuf rx')"
    using plain_read_spec [OF N] by (fastforce simp: Plain_def)
  show "buffer_ok tx \<Longrightarrow> t_write (Plain N) ep tx w = Some (st, ep', tx', w') \<Longrightarrow> shrinks tx tx'"
    using plain_write_spec [OF N] by (simp add: Plain_def)
qed

lemma plain_write_stream:
  assumes N: "records_writes sent N" and tx: "buffer_ok tx"
    and r: "plain_write N ep tx w = Some (st, ep', tx', w')"
  shows "sent w' @ rbuf tx' = sent w @ rbuf tx"
proof -
  let ?P = "\<lambda>N ep tx w r. records_writes sent N \<longrightarrow> buffer_ok tx \<longrightarrow>
    (case r of (st, ep', tx', w') \<Rightarrow> sent w' @ rbuf tx' = sent w @ rbuf tx)"
  have "?P N ep tx w (st, ep', tx', w')"
  proof (rule plain_write.raw_induct [where P = ?P, OF _ r], intro impI, goal_cases step)
    case (step rec N ep tx w res)
    then obtain f n e w1 where ep: "ep = Some f"
      and nw: "net_write N f (rbuf tx) w = ((n, e), w1)"
      by (cases ep; cases "net_write N (the ep) (rbuf tx) w") auto
    from step(3) have wf: "net_wf N" and s1: "sent w1 = sent w @ take (nat n) (rbuf tx)"
      using nw unfolding records_writes_def by blast+
    from net_wf_write [OF wf nw] have n: "-1 \<le> n" "n \<le> int (length (rbuf tx))" by auto
    moreover have "length (rbuf tx) < 2 ^ 31"
      using rbuf_le_cap buffer_okD [OF step(4)] by (metis order_le_less_trans)
    ultimately have "to_int32 n = n" by (intro to_int32_small) simp_all
    note eq = step(2) [unfolded ep nw option.case prod.case Let_def \<open>to_int32 n = n\<close>]
    show ?case
    proof (cases "n < 0 \<and> e = EINTR")
      case True
      with eq have "rec N (Some f) tx w1 = Some res" by simp
      from step(1) [OF this] step(3,4) s1 True show ?thesis by (simp add: ep)
    next
      case False
      have "rbuf (read (nat n) tx) = drop (nat n) (rbuf tx)"
        using n(2) step(4) by (auto simp: read_def intro!: rbuf_inc_rpos)
      with False eq s1 show ?thesis by (auto split: if_splits)
    qed
  qed
  with N tx show ?thesis by simp
qed

interpretation plain_stream: stream_transport
    "\<lambda>(N, sent). Plain N" "\<lambda>(N, sent). records_writes sent N" "\<lambda>(N, sent). sent"
proof (unfold_locales, goal_cases)
  case (4 env tx ep w st ep' tx' w')
  then show ?case using plain_write_stream by (auto simp: Plain_def split: prod.splits)
next
  case (5 env ep w ep' w')
  then show ?case by (auto simp: Plain_def plain_destroy_def split: prod.splits)
qed (auto simp: records_writes_def split: prod.splits
    dest: plain.read_extends plain.read_ok_progress plain.write_shrinks)

end
