(* ===== verification/Protocol.thy ===== *)
theory Protocol
  imports Transport
begin

text \<open>
  \<^verbatim>\<open>include/manet/protocol/concepts.hpp\<close>: the interface of a protocol session.  A session is
  the record \<open>protocol\<close> of its handlers; the optional ones are \<open>None\<close> where the session does
  not declare them.  A handler gets the receive buffer as an \<open>Input\<close> and the transmit buffer as
  an \<open>Output\<close>.  The laws a connection relies on are the locale \<open>protocol_laws\<close>,
  interpreted on the WebSocket session in the theory that models it.
\<close>

type_synonym ('w, 's) handler =
  "'s \<Rightarrow> buffer \<Rightarrow> buffer \<Rightarrow> 'w \<Rightarrow> (protocol_status \<times> 's \<times> buffer \<times> buffer \<times> 'w) option"

record ('w, 's, 'cfg) protocol =
  p_session :: "string \<Rightarrow> u16 \<Rightarrow> 'cfg \<Rightarrow> 's"
  p_on_data :: "('w, 's) handler"
  p_on_connect :: "('w, 's) handler option"
  p_on_shutdown :: "('w, 's) handler option"
  p_heartbeat :: "('s \<Rightarrow> buffer \<Rightarrow> 'w \<Rightarrow> ('s \<times> buffer \<times> 'w) option) option"
  p_teardown :: "('s \<Rightarrow> 'w \<Rightarrow> ('s \<times> 'w) option) option"

text \<open>
  A lawful handler consumes a prefix of the receive buffer and appends to the transmit buffer.
\<close>

definition handler_ok :: "('w, 's) handler \<Rightarrow> bool" where
  "handler_ok h \<longleftrightarrow>
     (\<forall>s rx tx w st s' rx' tx' w'.
        buffer_ok rx \<longrightarrow> buffer_ok tx \<longrightarrow> h s rx tx w = Some (st, s', rx', tx', w') \<longrightarrow>
        shrinks rx rx' \<and> extends tx tx')"

lemma handler_okD:
  "handler_ok h \<Longrightarrow> buffer_ok rx \<Longrightarrow> buffer_ok tx \<Longrightarrow> h s rx tx w = Some (st, s', rx', tx', w') \<Longrightarrow>
     shrinks rx rx' \<and> extends tx tx'"
  unfolding handler_ok_def by blast

locale protocol_laws =
  fixes pr :: "'env \<Rightarrow> ('w, 's, 'cfg) protocol"
    and penv_ok :: "'env \<Rightarrow> bool"
  assumes on_data_ok: "penv_ok env \<Longrightarrow> handler_ok (p_on_data (pr env))"
    and on_connect_ok: "penv_ok env \<Longrightarrow> p_on_connect (pr env) = Some h \<Longrightarrow> handler_ok h"
    and on_shutdown_ok: "penv_ok env \<Longrightarrow> p_on_shutdown (pr env) = Some h \<Longrightarrow> handler_ok h"
    and heartbeat_ok:
      "penv_ok env \<Longrightarrow> p_heartbeat (pr env) = Some hb \<Longrightarrow> buffer_ok tx \<Longrightarrow>
         hb s tx w = Some (s', tx', w') \<Longrightarrow> extends tx tx'"

end
