(* ===== verification/Connection.thy ===== *)
theory Connection
  imports Protocol
begin

text \<open>
  \<^verbatim>\<open>include/manet/reactor/connection.hpp\<close>: the connection state machine, every member function
  of \<open>Connection<Net, Transport, Protocol>\<close>.  The template arguments are the record
  \<open>templ\<close>; the members are the record \<open>conn\<close>, which also carries the world and the log
  of descriptor calls.  A member function maps a connection to an optional connection: \<open>None\<close>
  when a call it makes has no defined result or never returns.  The loops whose code has a guard
  that makes them stop are \<^theory_text>\<open>function\<close>s with a termination proof; the loops that depend on the
  environment to stop are \<^theory_text>\<open>partial_function\<close>s.
\<close>

section \<open>State\<close>

datatype state_t =
    S_uninitialized | S_in_progress | S_transport | S_protocol | S_close_protocol
  | S_drain_protocol | S_close_transport | S_closed | S_error

definition state_to_string :: "state_t \<Rightarrow> string" where
  "state_to_string state =
     (case state of
        S_uninitialized \<Rightarrow> ''uninitialized'' | S_in_progress \<Rightarrow> ''in_progress'' | S_transport \<Rightarrow> ''transport''
      | S_protocol \<Rightarrow> ''Protocol'' | S_close_protocol \<Rightarrow> ''close_protocol'' | S_drain_protocol \<Rightarrow> ''drain_protocol''
      | S_close_transport \<Rightarrow> ''close_transport'' | S_closed \<Rightarrow> ''closed'' | S_error \<Rightarrow> ''error'')"

record ('w, 'v, 'e, 's, 't, 'p) templ =
  net_of :: "('w, 'v) net"
  resolver_of :: "'w resolver"
  transport_of :: "('w, 'e, 't) transport"
  protocol_of :: "('w, 's, 'p) protocol"

record ('w, 'e, 's, 't, 'p) conn =
  c_rx :: buffer
  c_tx :: buffer
  c_transport :: 'e
  c_protocol :: 's
  c_transport_config :: 't
  c_protocol_config :: 'p
  c_host :: string
  c_cookie :: ptr
  c_fd :: fd
  c_state :: state_t
  c_port :: u16
  c_calls :: "call list"
  c_world :: 'w

text \<open>\<open>Connection<Net, transport::Plain, Protocol>\<close>.\<close>

definition plain_templ ::
    "('w, 'v) net \<Rightarrow> 'w resolver \<Rightarrow> ('w, 's, 'p) protocol \<Rightarrow> ('w, 'v, plain_endpoint, 's, unit, 'p) templ" where
  "plain_templ N R P = \<lparr>net_of = N, resolver_of = R, transport_of = Plain N, protocol_of = P\<rparr>"

text \<open>
  The constructor.  The capacities of the two buffers are \<open>RX_CAP\<close> and \<open>TX_CAP\<close> in the
  program; they are arguments here so that small connections can be evaluated.
\<close>

definition Connection ::
    "('w, 'v, 'e, 's, 't, 'p) templ \<Rightarrow> nat \<Rightarrow> nat \<Rightarrow> string \<Rightarrow> u16 \<Rightarrow> 't \<Rightarrow> 'p \<Rightarrow> 'w \<Rightarrow>
     ('w, 'e, 's, 't, 'p) conn" where
  "Connection T rx_cap tx_cap host port tc pc w =
     \<lparr>c_rx = new_buffer rx_cap, c_tx = new_buffer tx_cap,
      c_transport = t_default (transport_of T),
      c_protocol = p_session (protocol_of T) host port pc,
      c_transport_config = tc, c_protocol_config = pc, c_host = host, c_cookie = 0,
      c_fd = -1, c_state = S_uninitialized, c_port = port, c_calls = [], c_world = w\<rparr>"

definition conn_closed :: "('w, 'e, 's, 't, 'p) conn \<Rightarrow> bool" where
  "conn_closed c \<longleftrightarrow> c_state c = S_closed"

definition conn_done :: "('w, 'e, 's, 't, 'p) conn \<Rightarrow> bool" where
  "conn_done c \<longleftrightarrow> c_state c = S_error \<or> c_state c = S_closed"

section \<open>Leaving and arming\<close>

definition subscribe ::
    "('w, 'v, 'e, 's, 't, 'p) templ \<Rightarrow> bool \<Rightarrow> bool \<Rightarrow> ('w, 'e, 's, 't, 'p) conn \<Rightarrow> ('w, 'e, 's, 't, 'p) conn" where
  "subscribe T want_read want_write c =
     c\<lparr>c_world := net_subscribe (net_of T) (c_cookie c) (c_fd c) want_read want_write (c_world c),
       c_calls := C_subscribe (c_fd c) want_read want_write # c_calls c\<rparr>"

definition teardown_protocol ::
    "('w, 'v, 'e, 's, 't, 'p) templ \<Rightarrow> ('w, 'e, 's, 't, 'p) conn \<Rightarrow> ('w, 'e, 's, 't, 'p) conn option" where
  "teardown_protocol T c =
     (case p_teardown (protocol_of T) of
        None \<Rightarrow> Some c
      | Some td \<Rightarrow> do {
          (s, w) \<leftarrow> td (c_protocol c) (c_world c);
          Some (c\<lparr>c_protocol := s, c_world := w\<rparr>)
        })"

definition release ::
    "('w, 'v, 'e, 's, 't, 'p) templ \<Rightarrow> ('w, 'e, 's, 't, 'p) conn \<Rightarrow> ('w, 'e, 's, 't, 'p) conn" where
  "release T c =
     (let w = net_clear (net_of T) (c_fd c) (c_world c);
          (_, w) = net_close (net_of T) (c_fd c) w
      in c\<lparr>c_world := w, c_calls := C_close (c_fd c) # C_clear (c_fd c) # c_calls c, c_fd := -1\<rparr>)"

definition teardown ::
    "('w, 'v, 'e, 's, 't, 'p) templ \<Rightarrow> ('w, 'e, 's, 't, 'p) conn \<Rightarrow> ('w, 'e, 's, 't, 'p) conn option" where
  "teardown T c =
     (if c_fd c \<noteq> -1 then do {
        c \<leftarrow> teardown_protocol T c;
        (ep, w) \<leftarrow> t_destroy (transport_of T) (c_transport c) (c_world c);
        Some (release T (c\<lparr>c_transport := ep, c_world := w\<rparr>))
      } else Some c)"

definition enter_close_transport :: "('w, 'e, 's, 't, 'p) conn \<Rightarrow> ('w, 'e, 's, 't, 'p) conn" where
  "enter_close_transport c = c\<lparr>c_state := S_close_transport\<rparr>"

definition enter_error ::
    "('w, 'v, 'e, 's, 't, 'p) templ \<Rightarrow> ('w, 'e, 's, 't, 'p) conn \<Rightarrow> ('w, 'e, 's, 't, 'p) conn option" where
  "enter_error T c = teardown T (c\<lparr>c_state := S_error\<rparr>)"

definition enter_closed ::
    "('w, 'v, 'e, 's, 't, 'p) templ \<Rightarrow> ('w, 'e, 's, 't, 'p) conn \<Rightarrow> ('w, 'e, 's, 't, 'p) conn option" where
  "enter_closed T c = teardown T (c\<lparr>c_state := S_closed\<rparr>)"

definition arm ::
    "('w, 'v, 'e, 's, 't, 'p) templ \<Rightarrow> transport_status \<Rightarrow> ('w, 'e, 's, 't, 'p) conn \<Rightarrow>
     ('w, 'e, 's, 't, 'p) conn option" where
  "arm T status c =
     (case status of
        T_want_read \<Rightarrow> Some (subscribe T True (rbuf (c_tx c) \<noteq> []) c)
      | T_want_write \<Rightarrow>
          Some (subscribe T (c_state c = S_protocol \<or> c_state c = S_close_protocol) True c)
      | T_error \<Rightarrow> enter_error T c
      | _ \<Rightarrow> Some c)"

section \<open>Writing\<close>

partial_function (option) transport_write ::
    "('w, 'v, 'e, 's, 't, 'p) templ \<Rightarrow> bool \<Rightarrow> ('w, 'e, 's, 't, 'p) conn \<Rightarrow>
     (bool \<times> ('w, 'e, 's, 't, 'p) conn) option" where
  "transport_write T re_arm c =
     (if c_fd c \<noteq> -1 \<and> rbuf (c_tx c) \<noteq> [] then do {
        let before = length (rbuf (c_tx c));
        (status, ep, tx, w) \<leftarrow> t_write (transport_of T) (c_transport c) (c_tx c) (c_world c);
        let c = c\<lparr>c_transport := ep, c_tx := tx, c_world := w\<rparr>;
        if status = T_close \<and> c_state c \<noteq> S_error then Some (False, enter_close_transport c)
        else if status \<noteq> T_ok then do { c \<leftarrow> arm T status c; Some (False, c) }
        else if length (rbuf (c_tx c)) = before then do { c \<leftarrow> arm T T_want_write c; Some (False, c) }
        else transport_write T re_arm c
      } else
        Some (True,
          if re_arm \<and> c_fd c \<noteq> -1 \<and> (c_state c = S_protocol \<or> c_state c = S_close_protocol)
          then subscribe T True False c else c))"

declare transport_write.simps [code]

section \<open>Calling the protocol\<close>

definition call_handler ::
    "('w, 's) handler \<Rightarrow> ('w, 'e, 's, 't, 'p) conn \<Rightarrow>
     (protocol_status \<times> ('w, 'e, 's, 't, 'p) conn) option" where
  "call_handler h c = do {
     (st, s, rx, tx, w) \<leftarrow> h (c_protocol c) (c_rx c) (c_tx c) (c_world c);
     Some (st, c\<lparr>c_protocol := s, c_rx := rx, c_tx := tx, c_world := w\<rparr>)
   }"

text \<open>The loop of \<open>enter_close_protocol\<close>: it goes on only while the receive buffer shrinks.\<close>

function enter_close_protocol_loop ::
    "('w, 'v, 'e, 's, 't, 'p) templ \<Rightarrow> ('w, 's) handler \<Rightarrow> ('w, 'e, 's, 't, 'p) conn \<Rightarrow>
     ('w, 'e, 's, 't, 'p) conn option" where
  "enter_close_protocol_loop T on_shutdown c =
     (let before = length (rbuf (c_rx c)) in
      case call_handler on_shutdown c of
        None \<Rightarrow> None
      | Some (P_ok, c) \<Rightarrow>
          (case transport_write T True c of
             None \<Rightarrow> None
           | Some (_, c) \<Rightarrow>
               if c_state c \<noteq> S_close_protocol then Some c
               else if before \<le> length (rbuf (c_rx c)) then Some c
               else enter_close_protocol_loop T on_shutdown c)
      | Some (P_close, c) \<Rightarrow> Some (c\<lparr>c_state := S_drain_protocol\<rparr>)
      | Some (P_error, c) \<Rightarrow> enter_error T c)"
  by pat_completeness auto
termination
  by (relation "measure (\<lambda>(T, h, c). length (rbuf (c_rx c)))") auto

declare enter_close_protocol_loop.simps [simp del]

definition enter_close_protocol ::
    "('w, 'v, 'e, 's, 't, 'p) templ \<Rightarrow> ('w, 'e, 's, 't, 'p) conn \<Rightarrow> ('w, 'e, 's, 't, 'p) conn option" where
  "enter_close_protocol T c =
     (case p_on_shutdown (protocol_of T) of
        Some on_shutdown \<Rightarrow> enter_close_protocol_loop T on_shutdown (c\<lparr>c_state := S_close_protocol\<rparr>)
      | None \<Rightarrow> Some (enter_close_transport c))"

definition bind_protocol ::
    "('w, 'v, 'e, 's, 't, 'p) templ \<Rightarrow> ('w, 's) handler \<Rightarrow> ('w, 'e, 's, 't, 'p) conn \<Rightarrow>
     ('w, 'e, 's, 't, 'p) conn option" where
  "bind_protocol T handler c = do {
     (st, c) \<leftarrow> call_handler handler c;
     case st of
       P_ok \<Rightarrow> do { (_, c) \<leftarrow> transport_write T True c; Some c }
     | P_close \<Rightarrow> do {
         (_, c) \<leftarrow> transport_write T True c;
         case p_on_shutdown (protocol_of T) of
           Some _ \<Rightarrow>
             (if c_state c = S_protocol then enter_close_protocol T c
              else Some (enter_close_transport c))
         | None \<Rightarrow> do {
             (flushed, c) \<leftarrow> transport_write T True c;
             Some (if flushed then enter_close_transport c else c\<lparr>c_state := S_drain_protocol\<rparr>)
           }
       }
     | P_error \<Rightarrow> enter_error T c
   }"

definition enter_Protocol ::
    "('w, 'v, 'e, 's, 't, 'p) templ \<Rightarrow> ('w, 'e, 's, 't, 'p) conn \<Rightarrow> ('w, 'e, 's, 't, 'p) conn option" where
  "enter_Protocol T c =
     (let c = c\<lparr>c_state := S_protocol\<rparr> in
      case p_on_connect (protocol_of T) of
        Some on_connect \<Rightarrow> bind_protocol T on_connect c
      | None \<Rightarrow> do { (_, c) \<leftarrow> transport_write T True c; Some c })"

function protocol_consume ::
    "('w, 'v, 'e, 's, 't, 'p) templ \<Rightarrow> ('w, 'e, 's, 't, 'p) conn \<Rightarrow> ('w, 'e, 's, 't, 'p) conn option" where
  "protocol_consume T c =
     (let before = length (rbuf (c_rx c)) in
      if before = 0 then Some c
      else case bind_protocol T (p_on_data (protocol_of T)) c of
        None \<Rightarrow> None
      | Some c \<Rightarrow>
          if c_state c \<noteq> S_protocol then Some c
          else if before \<le> length (rbuf (c_rx c)) then Some c
          else protocol_consume T c)"
  by pat_completeness auto
termination
  by (relation "measure (\<lambda>(T, c). length (rbuf (c_rx c)))") auto

declare protocol_consume.simps [simp del]

section \<open>Reading\<close>

partial_function (option) transport_read ::
    "('w, 'v, 'e, 's, 't, 'p) templ \<Rightarrow>
     (('w, 'e, 's, 't, 'p) conn \<Rightarrow> (bool \<times> ('w, 'e, 's, 't, 'p) conn) option) \<Rightarrow>
     (('w, 'e, 's, 't, 'p) conn \<Rightarrow> ('w, 'e, 's, 't, 'p) conn) \<Rightarrow>
     ('w, 'e, 's, 't, 'p) conn \<Rightarrow> ('w, 'e, 's, 't, 'p) conn option" where
  "transport_read T consume on_close c =
     (if full (c_rx c) then enter_error T c
      else do {
        let before = length (rbuf (c_rx c));
        (st, ep, rx, w) \<leftarrow> t_read (transport_of T) (c_transport c) (c_rx c) (c_world c);
        let c = c\<lparr>c_transport := ep, c_rx := rx, c_world := w\<rparr>;
        (continue, c) \<leftarrow> (if length (rbuf (c_rx c)) \<noteq> before then consume c else Some (True, c));
        if \<not> continue then Some c
        else case st of
          T_ok \<Rightarrow> transport_read T consume on_close c
        | T_close \<Rightarrow> Some (on_close c)
        | T_want_read \<Rightarrow> arm T st c
        | T_want_write \<Rightarrow> arm T st c
        | T_error \<Rightarrow> enter_error T c
      })"

declare transport_read.simps [code]

text \<open>The closures \<open>step_Protocol\<close> and \<open>step_close_protocol\<close> pass as \<open>consume\<close>.\<close>

definition consume_protocol ::
    "('w, 'v, 'e, 's, 't, 'p) templ \<Rightarrow> ('w, 'e, 's, 't, 'p) conn \<Rightarrow>
     (bool \<times> ('w, 'e, 's, 't, 'p) conn) option" where
  "consume_protocol T c = do { c \<leftarrow> protocol_consume T c; Some (c_state c = S_protocol, c) }"

function consume_shutdown_loop ::
    "('w, 'v, 'e, 's, 't, 'p) templ \<Rightarrow> ('w, 's) handler \<Rightarrow> ('w, 'e, 's, 't, 'p) conn \<Rightarrow>
     (bool \<times> ('w, 'e, 's, 't, 'p) conn) option" where
  "consume_shutdown_loop T on_shutdown c =
     (let before = length (rbuf (c_rx c)) in
      case call_handler on_shutdown c of
        None \<Rightarrow> None
      | Some (P_ok, c) \<Rightarrow>
          (case transport_write T True c of
             None \<Rightarrow> None
           | Some (_, c) \<Rightarrow>
               if c_state c \<noteq> S_close_protocol then Some (False, c)
               else if before \<le> length (rbuf (c_rx c)) then Some (True, c)
               else consume_shutdown_loop T on_shutdown c)
      | Some (P_close, c) \<Rightarrow> Some (False, c\<lparr>c_state := S_drain_protocol\<rparr>)
      | Some (P_error, c) \<Rightarrow> do { c \<leftarrow> enter_error T c; Some (False, c) })"
  by pat_completeness auto
termination
  by (relation "measure (\<lambda>(T, h, c). length (rbuf (c_rx c)))") auto

declare consume_shutdown_loop.simps [simp del]

definition consume_shutdown ::
    "('w, 'v, 'e, 's, 't, 'p) templ \<Rightarrow> ('w, 'e, 's, 't, 'p) conn \<Rightarrow>
     (bool \<times> ('w, 'e, 's, 't, 'p) conn) option" where
  "consume_shutdown T c =
     (case p_on_shutdown (protocol_of T) of
        Some on_shutdown \<Rightarrow> consume_shutdown_loop T on_shutdown c
      | None \<Rightarrow> Some (False, c\<lparr>c_state := S_drain_protocol\<rparr>))"

section \<open>Steps\<close>

definition enter_connected ::
    "('w, 'v, 'e, 's, 't, 'p) templ \<Rightarrow> ('w, 'e, 's, 't, 'p) conn \<Rightarrow> ('w, 'e, 's, 't, 'p) conn option" where
  "enter_connected T c = do {
     (transport, w) \<leftarrow> t_init (transport_of T) (c_fd c) (c_transport_config c) (c_world c);
     let c = c\<lparr>c_world := w\<rparr>;
     case transport of
       None \<Rightarrow>
         (let c = c\<lparr>c_state := S_error\<rparr> in
          if c_fd c \<noteq> -1 then do { c \<leftarrow> teardown_protocol T c; Some (release T c) } else Some c)
     | Some ep \<Rightarrow>
         (let c = c\<lparr>c_transport := ep\<rparr> in
          case t_handshake_step (transport_of T) of
            Some _ \<Rightarrow> Some (c\<lparr>c_state := S_transport\<rparr>)
          | None \<Rightarrow> enter_Protocol T (subscribe T True False c))
   }"

definition SOL_SOCKET :: int where "SOL_SOCKET = 1"
definition SO_ERROR :: int where "SO_ERROR = 4"

definition step_in_progress ::
    "('w, 'v, 'e, 's, 't, 'p) templ \<Rightarrow> 'v \<Rightarrow> ('w, 'e, 's, 't, 'p) conn \<Rightarrow> ('w, 'e, 's, 't, 'p) conn option" where
  "step_in_progress T ev c =
     (if net_ev_writeable (net_of T) ev then
        (let ((rc, err), w) = net_getsockopt (net_of T) (c_fd c) SOL_SOCKET SO_ERROR (c_world c);
             c = c\<lparr>c_world := w\<rparr>
         in if rc = -1 then enter_error T c
            else if err \<noteq> 0 then enter_error T c
            else enter_connected T c)
      else if net_ev_error (net_of T) ev \<or> net_ev_close (net_of T) ev then enter_error T c
      else Some c)"

definition step_Transport ::
    "('w, 'v, 'e, 's, 't, 'p) templ \<Rightarrow> ('w, 'e, 's, 't, 'p) conn \<Rightarrow> ('w, 'e, 's, 't, 'p) conn option" where
  "step_Transport T c =
     (case t_handshake_step (transport_of T) of
        None \<Rightarrow> Some c
      | Some handshake_step \<Rightarrow> do {
          (status, ep, w) \<leftarrow> handshake_step (c_transport c) (c_world c);
          let c = c\<lparr>c_transport := ep, c_world := w\<rparr>;
          if status = T_ok then enter_Protocol T c
          else if status = T_close then enter_error T c
          else arm T status c
        })"

definition step_Protocol ::
    "('w, 'v, 'e, 's, 't, 'p) templ \<Rightarrow> 'v \<Rightarrow> ('w, 'e, 's, 't, 'p) conn \<Rightarrow> ('w, 'e, 's, 't, 'p) conn option" where
  "step_Protocol T ev c = do {
     c \<leftarrow> (if net_ev_readable (net_of T) ev
          then transport_read T (consume_protocol T) enter_close_transport c else Some c);
     if net_ev_writeable (net_of T) ev then do { (_, c) \<leftarrow> transport_write T True c; Some c }
     else Some c
   }"

definition step_close_protocol ::
    "('w, 'v, 'e, 's, 't, 'p) templ \<Rightarrow> 'v \<Rightarrow> ('w, 'e, 's, 't, 'p) conn \<Rightarrow> ('w, 'e, 's, 't, 'p) conn option" where
  "step_close_protocol T ev c = do {
     c \<leftarrow> (if net_ev_readable (net_of T) ev
          then transport_read T (consume_shutdown T) enter_close_transport c else Some c);
     if net_ev_writeable (net_of T) ev then do { (_, c) \<leftarrow> transport_write T True c; Some c }
     else Some c
   }"

definition step_drain_protocol ::
    "('w, 'v, 'e, 's, 't, 'p) templ \<Rightarrow> 'v option \<Rightarrow> ('w, 'e, 's, 't, 'p) conn \<Rightarrow>
     ('w, 'e, 's, 't, 'p) conn option" where
  "step_drain_protocol T ev c = do {
     c \<leftarrow> (if (case ev of None \<Rightarrow> False | Some ev \<Rightarrow> net_ev_readable (net_of T) ev) then do {
            c \<leftarrow> transport_read T (\<lambda>c. Some (True, c)) (\<lambda>c. c) c;
            Some (c\<lparr>c_rx := clear (c_rx c)\<rparr>)
          } else Some c);
     (flushed, c) \<leftarrow> transport_write T False c;
     Some (if flushed then enter_close_transport c else c)
   }"

definition step_close_transport ::
    "('w, 'v, 'e, 's, 't, 'p) templ \<Rightarrow> ('w, 'e, 's, 't, 'p) conn \<Rightarrow> ('w, 'e, 's, 't, 'p) conn option" where
  "step_close_transport T c =
     (case t_shutdown_step (transport_of T) of
        None \<Rightarrow> enter_closed T c
      | Some shutdown_step \<Rightarrow> do {
          (status, ep, w) \<leftarrow> shutdown_step (c_transport c) (c_world c);
          let c = c\<lparr>c_transport := ep, c_world := w\<rparr>;
          case status of
            T_ok \<Rightarrow> enter_closed T c
          | T_error \<Rightarrow> enter_error T c
          | T_close \<Rightarrow> enter_error T c
          | T_want_read \<Rightarrow> arm T status c
          | T_want_write \<Rightarrow> arm T status c
        })"

text \<open>
  One turn of the loop of \<open>steps\<close>: the \<open>switch\<close> on the state.  The flag is false where the
  source returns from \<open>steps\<close>; reaching the switch in the uninitialized state is undefined.
\<close>

definition dispatch ::
    "('w, 'v, 'e, 's, 't, 'p) templ \<Rightarrow> 'v option \<Rightarrow> ('w, 'e, 's, 't, 'p) conn \<Rightarrow>
     (bool \<times> ('w, 'e, 's, 't, 'p) conn) option" where
  "dispatch T ev c =
     (case c_state c of
        S_uninitialized \<Rightarrow> None
      | S_in_progress \<Rightarrow>
          (case ev of None \<Rightarrow> Some (False, c) | Some e \<Rightarrow> map_option (Pair True) (step_in_progress T e c))
      | S_transport \<Rightarrow> map_option (Pair True) (step_Transport T c)
      | S_protocol \<Rightarrow>
          (case ev of None \<Rightarrow> Some (False, c) | Some e \<Rightarrow> map_option (Pair True) (step_Protocol T e c))
      | S_close_protocol \<Rightarrow>
          (case ev of None \<Rightarrow> Some (False, c) | Some e \<Rightarrow> map_option (Pair True) (step_close_protocol T e c))
      | S_drain_protocol \<Rightarrow> map_option (Pair True) (step_drain_protocol T ev c)
      | S_close_transport \<Rightarrow> map_option (Pair True) (step_close_transport T c)
      | S_closed \<Rightarrow> Some (False, c)
      | S_error \<Rightarrow> Some (False, c))"

partial_function (option) steps ::
    "('w, 'v, 'e, 's, 't, 'p) templ \<Rightarrow> 'v option \<Rightarrow> ('w, 'e, 's, 't, 'p) conn \<Rightarrow>
     ('w, 'e, 's, 't, 'p) conn option" where
  "steps T ev c = do {
     (continue, c') \<leftarrow> dispatch T ev c;
     if \<not> continue then Some c'
     else if c_state c' = c_state c then Some c'
     else steps T ev c'
   }"

declare steps.simps [code]

section \<open>The public interface\<close>

definition enter_uninitialized ::
    "('w, 'v, 'e, 's, 't, 'p) templ \<Rightarrow> ('w, 'e, 's, 't, 'p) conn \<Rightarrow> ('w, 'e, 's, 't, 'p) conn option" where
  "enter_uninitialized T c =
     (let c = c\<lparr>c_state := S_uninitialized, c_rx := clear (c_rx c), c_tx := clear (c_tx c)\<rparr>;
          (result, l, w) = dial (net_of T) (resolver_of T) (c_host c) (c_port c) (c_calls c) (c_world c);
          c = c\<lparr>c_calls := l, c_world := w\<rparr>
      in
        if dr_fd result = -1 then Some (c\<lparr>c_fd := -1, c_state := S_error\<rparr>)
        else
          let c = c\<lparr>c_fd := dr_fd result\<rparr> in
          if dr_err result = Some EINPROGRESS then
            Some (subscribe T False True (c\<lparr>c_state := S_in_progress\<rparr>))
          else do { c \<leftarrow> enter_connected T c; steps T None c })"

definition attach ::
    "('w, 'v, 'e, 's, 't, 'p) templ \<Rightarrow> ptr \<Rightarrow> ('w, 'e, 's, 't, 'p) conn \<Rightarrow> ('w, 'e, 's, 't, 'p) conn option" where
  "attach T cookie c =
     (if c_cookie c \<noteq> 0 then Some c else enter_uninitialized T (c\<lparr>c_cookie := cookie\<rparr>))"

definition handle_event ::
    "('w, 'v, 'e, 's, 't, 'p) templ \<Rightarrow> 'v \<Rightarrow> ('w, 'e, 's, 't, 'p) conn \<Rightarrow> ('w, 'e, 's, 't, 'p) conn option" where
  "handle_event T ev c = steps T (Some ev) c"

definition heartbeat ::
    "('w, 'v, 'e, 's, 't, 'p) templ \<Rightarrow> ('w, 'e, 's, 't, 'p) conn \<Rightarrow> ('w, 'e, 's, 't, 'p) conn option" where
  "heartbeat T c =
     (case p_heartbeat (protocol_of T) of
        None \<Rightarrow> Some c
      | Some hb \<Rightarrow>
          if c_state c = S_protocol then do {
            (s, tx, w) \<leftarrow> hb (c_protocol c) (c_tx c) (c_world c);
            (_, c) \<leftarrow> transport_write T True (c\<lparr>c_protocol := s, c_tx := tx, c_world := w\<rparr>);
            Some c
          } else Some c)"

definition restart ::
    "('w, 'v, 'e, 's, 't, 'p) templ \<Rightarrow> ('w, 'e, 's, 't, 'p) conn \<Rightarrow> ('w, 'e, 's, 't, 'p) conn option" where
  "restart T c =
     (if \<not> conn_done c then Some c
      else do {
        c \<leftarrow> teardown T c;
        enter_uninitialized T
          (c\<lparr>c_protocol := p_session (protocol_of T) (c_host c) (c_port c) (c_protocol_config c)\<rparr>)
      })"

text \<open>The \<open>switch\<close> of \<open>stop\<close>, then \<open>stop\<close> itself.\<close>

definition stop_switch ::
    "('w, 'v, 'e, 's, 't, 'p) templ \<Rightarrow> ('w, 'e, 's, 't, 'p) conn \<Rightarrow> ('w, 'e, 's, 't, 'p) conn option" where
  "stop_switch T c =
     (case c_state c of
        S_uninitialized \<Rightarrow> enter_closed T c
      | S_in_progress \<Rightarrow> enter_closed T c
      | S_transport \<Rightarrow> Some (enter_close_transport c)
      | S_protocol \<Rightarrow> enter_close_protocol T c
      | _ \<Rightarrow> Some c)"

definition stop ::
    "('w, 'v, 'e, 's, 't, 'p) templ \<Rightarrow> ('w, 'e, 's, 't, 'p) conn \<Rightarrow> ('w, 'e, 's, 't, 'p) conn option" where
  "stop T c = do { c \<leftarrow> stop_switch T c; steps T None c }"

text \<open>The destructor.\<close>

definition destruct ::
    "('w, 'v, 'e, 's, 't, 'p) templ \<Rightarrow> ('w, 'e, 's, 't, 'p) conn \<Rightarrow> ('w, 'e, 's, 't, 'p) conn option" where
  "destruct T c = teardown T c"

end
