(* ===== verification/Connection_Inv.thy ===== *)
theory Connection_Inv
  imports Connection
begin

text \<open>
  The invariants of the connection state machine.  Every operation of \<open>Connection\<close> is shown to
  keep the descriptor log disciplined (the connection opens a descriptor only when it holds none,
  and subscribes, clears and closes only the one it holds), to release the descriptor on reaching
  \<open>closed\<close> or \<open>error\<close>, to leave a subscription behind in every state that waits for an
  event, and to move only forward through the states.  The lemmas follow the call graph from
  \<open>teardown\<close> up to the public operations; the properties are at the end.
\<close>

section \<open>The invariant\<close>

definition fd_states :: "state_t set" where
  "fd_states = {S_in_progress, S_transport, S_protocol, S_close_protocol}"

definition conn_inv :: "('w, 'e, 's, 't, 'p) conn \<Rightarrow> bool" where
  "conn_inv c \<longleftrightarrow> replay (c_calls c) = Some (c_fd c) \<and> (conn_done c \<longrightarrow> c_fd c = -1) \<and>
     (c_state c \<in> fd_states \<longrightarrow> c_fd c \<noteq> -1)"

definition armed_io :: "('w, 'e, 's, 't, 'p) conn \<Rightarrow> bool" where
  "armed_io c \<longleftrightarrow> (c_state c = S_protocol \<or> c_state c = S_close_protocol \<longrightarrow>
     wants_read (c_calls c) \<and> (rbuf (c_tx c) \<noteq> [] \<longrightarrow> wants_write (c_calls c)))"

lemma replay_range: "replay l = Some f \<Longrightarrow> f = -1 \<or> 0 \<le> f"
  by (induction l arbitrary: f rule: replay.induct) (auto split: if_splits)

lemma subscribe_simps [simp]:
  "c_state (subscribe T r w c) = c_state c" "c_fd (subscribe T r w c) = c_fd c"
  "c_rx (subscribe T r w c) = c_rx c" "c_tx (subscribe T r w c) = c_tx c"
  "c_calls (subscribe T r w c) = C_subscribe (c_fd c) r w # c_calls c"
  "c_transport (subscribe T r w c) = c_transport c" "c_protocol (subscribe T r w c) = c_protocol c"
  by (simp_all add: subscribe_def)

lemma release_simps [simp]:
  "c_state (release T c) = c_state c" "c_fd (release T c) = -1"
  "c_rx (release T c) = c_rx c" "c_tx (release T c) = c_tx c"
  "c_calls (release T c) = C_close (c_fd c) # C_clear (c_fd c) # c_calls c"
  "c_transport (release T c) = c_transport c" "c_protocol (release T c) = c_protocol c"
  by (simp_all add: release_def case_prod_unfold Let_def)

lemma conn_inv_frame [simp]:
  "conn_inv (c\<lparr>c_rx := b\<rparr>) = conn_inv c" "conn_inv (c\<lparr>c_tx := b\<rparr>) = conn_inv c"
  "conn_inv (c\<lparr>c_transport := ep\<rparr>) = conn_inv c" "conn_inv (c\<lparr>c_protocol := s\<rparr>) = conn_inv c"
  "conn_inv (c\<lparr>c_world := w\<rparr>) = conn_inv c" "conn_inv (c\<lparr>c_cookie := k\<rparr>) = conn_inv c"
  "conn_inv (subscribe T r v c) = conn_inv c"
  by (simp_all add: conn_inv_def conn_done_def)

lemma conn_inv_state:
  "conn_inv c \<Longrightarrow> s \<notin> fd_states \<Longrightarrow> s \<noteq> S_error \<Longrightarrow> s \<noteq> S_closed \<Longrightarrow> conn_inv (c\<lparr>c_state := s\<rparr>)"
  "conn_inv c \<Longrightarrow> s \<in> fd_states \<Longrightarrow> c_fd c \<noteq> -1 \<Longrightarrow> conn_inv (c\<lparr>c_state := s\<rparr>)"
  by (auto simp: conn_inv_def conn_done_def fd_states_def)

lemma conn_inv_live: "conn_inv c \<Longrightarrow> c_state c \<in> fd_states \<Longrightarrow> c_fd c \<noteq> -1"
  by (simp add: conn_inv_def)

lemma teardown_spec:
  "replay (c_calls c) = Some (c_fd c) \<Longrightarrow>
   ensures (\<lambda>c'. replay (c_calls c') = Some (-1) \<and> c_fd c' = -1 \<and> c_state c' = c_state c
      \<and> c_rx c' = c_rx c \<and> c_tx c' = c_tx c) (teardown T c)"
  by (frule replay_range) 
    (auto simp: teardown_def teardown_protocol_def ensures_def defined_iff split: option.splits)

lemma enter_error_spec:
  "conn_inv c \<Longrightarrow>
   ensures (\<lambda>c'. conn_inv c' \<and> c_state c' = S_error \<and> c_fd c' = -1 \<and> c_rx c' = c_rx c \<and> c_tx c' = c_tx c)
     (enter_error T c)"
  unfolding enter_error_def
  by (rule ensures_mono [OF teardown_spec]) (auto simp: conn_inv_def conn_done_def fd_states_def)

lemma enter_closed_spec:
  "conn_inv c \<Longrightarrow>
   ensures (\<lambda>c'. conn_inv c' \<and> c_state c' = S_closed \<and> c_fd c' = -1 \<and> c_rx c' = c_rx c \<and> c_tx c' = c_tx c)
     (enter_closed T c)"
  unfolding enter_closed_def
  by (rule ensures_mono [OF teardown_spec]) (auto simp: conn_inv_def conn_done_def fd_states_def)

lemma arm_spec:
  assumes "conn_inv c"
  shows "ensures (\<lambda>c'. conn_inv c' \<and> c_rx c' = c_rx c \<and> c_tx c' = c_tx c
     \<and> (c_state c' = c_state c \<and> c_fd c' = c_fd c \<or> c_state c' = S_error)
     \<and> (st = T_want_read \<longrightarrow> wants_read (c_calls c') \<and> (wants_write (c_calls c') \<longleftrightarrow> rbuf (c_tx c) \<noteq> []))
     \<and> (st = T_want_write \<longrightarrow> wants_write (c_calls c') \<and>
          (wants_read (c_calls c') \<longleftrightarrow> c_state c = S_protocol \<or> c_state c = S_close_protocol))
     \<and> (st = T_error \<longrightarrow> c_state c' = S_error)) (arm T st c)"
  using assms enter_error_spec [OF assms, of T]
  by (cases st) (auto simp: arm_def elim: ensures_mono)

definition tw_post :: "('w, 'e, 's, 't, 'p) conn \<Rightarrow> bool \<Rightarrow> bool \<times> ('w, 'e, 's, 't, 'p) conn \<Rightarrow> bool" where
  "tw_post c re_arm = (\<lambda>(b, c'). conn_inv c' \<and> (re_arm \<longrightarrow> armed_io c') \<and> c_rx c' = c_rx c
     \<and> c_state c' \<in> {c_state c, S_close_transport, S_error}
     \<and> (c_state c' = S_close_transport \<longrightarrow> c_state c \<noteq> S_close_transport \<longrightarrow> c_calls c' = c_calls c)
     \<and> (b \<longrightarrow> c_state c' = c_state c \<and> c_fd c' = c_fd c \<and> (c_fd c' = -1 \<or> rbuf (c_tx c') = []))
     \<and> (\<not> b \<longrightarrow> c_state c' = c_state c \<longrightarrow> c_state c \<noteq> S_close_transport \<longrightarrow>
         (wants_read (c_calls c') \<or> wants_write (c_calls c')) \<and>
         (rbuf (c_tx c') \<noteq> [] \<longrightarrow> wants_write (c_calls c'))))"

lemma transport_write_spec:
  assumes "conn_inv c"
  shows "ensures (tw_post c re_arm) (transport_write T re_arm c)"
proof (rule ensuresI)
  fix r assume r: "transport_write T re_arm c = Some r"
  show "tw_post c re_arm r"
  proof (rule transport_write.raw_induct [where P = "\<lambda>T re_arm c r. conn_inv c \<longrightarrow> tw_post c re_arm r",
      OF _ r, rule_format, OF _ assms], goal_cases step)
    case (step rec T re_arm c r)
    then show ?case
    proof (cases "c_fd c \<noteq> -1 \<and> rbuf (c_tx c) \<noteq> []")
      case False
      have "c_state c = S_protocol \<or> c_state c = S_close_protocol \<Longrightarrow> c_fd c \<noteq> -1"
        using conn_inv_live [OF step(3)] by (auto simp: fd_states_def)
      with False step(2,3) show ?thesis
        by (auto simp: tw_post_def armed_io_def split: if_splits)
    next
      case True
      then obtain st ep tx w where
        wr: "t_write (transport_of T) (c_transport c) (c_tx c) (c_world c) = Some (st, ep, tx, w)"
        using step(2) by (auto simp: defined_iff)
      let ?c = "c\<lparr>c_transport := ep, c_tx := tx, c_world := w\<rparr>"
      have inv: "conn_inv ?c" using step(3) by simp
      have state: "c_state c \<noteq> S_error" using True step(3) by (auto simp: conn_inv_def conn_done_def)
      consider "st = T_close" | "st = T_ok" "length (rbuf tx) = length (rbuf (c_tx c))"
        | "st = T_ok" "length (rbuf tx) \<noteq> length (rbuf (c_tx c))" | "st \<noteq> T_ok" "st \<noteq> T_close"
        by blast
      then show ?thesis
      proof cases
        case 1
        with True wr state step(2) inv show ?thesis
          by (auto simp: tw_post_def armed_io_def enter_close_transport_def fd_states_def intro: conn_inv_state)
      next
        case 2
        have "ensures (\<lambda>c'. r = (False, c') \<longrightarrow> tw_post c re_arm r) (arm T T_want_write ?c)"
          by (rule ensures_mono [OF arm_spec [OF inv]]) (auto simp: tw_post_def armed_io_def)
        with 2 True wr state step(2) show ?thesis by (auto simp: defined_iff dest: ensuresD)
      next
        case 3
        with True wr state step(2) have "rec T re_arm ?c = Some r" by simp
        from step(1) [OF this] inv show ?thesis by (simp add: tw_post_def)
      next
        case 4
        have "ensures (\<lambda>c'. r = (False, c') \<longrightarrow> tw_post c re_arm r) (arm T st ?c)"
          by (rule ensures_mono [OF arm_spec [OF inv]]) (use 4 state in \<open>cases st; auto simp: tw_post_def armed_io_def\<close>)
        with 4 True wr state step(2) show ?thesis by (auto simp: defined_iff dest: ensuresD)
      qed
    qed
  qed
qed

definition good :: "state_t set \<Rightarrow> ('w, 'e, 's, 't, 'p) conn \<Rightarrow> bool" where
  "good S c \<longleftrightarrow> conn_inv c \<and> armed_io c \<and> c_state c \<in> S"

fun later :: "state_t \<Rightarrow> state_t set" where
  "later S_uninitialized = {}"
| "later S_in_progress = {S_transport, S_protocol, S_close_protocol, S_drain_protocol, S_close_transport, S_error}"
| "later S_transport = {S_protocol, S_close_protocol, S_drain_protocol, S_close_transport, S_error}"
| "later S_protocol = {S_close_protocol, S_drain_protocol, S_close_transport, S_error}"
| "later S_close_protocol = {S_drain_protocol, S_close_transport, S_error}"
| "later S_drain_protocol = {S_close_transport, S_error}"
| "later S_close_transport = {S_closed, S_error}"
| "later S_closed = {}"
| "later S_error = {}"

text \<open>The successors of a state are strictly later in one order, so a call makes at most seven moves.\<close>

fun rank :: "state_t \<Rightarrow> nat" where
  "rank S_uninitialized = 0"
| "rank S_in_progress = 1"
| "rank S_transport = 2"
| "rank S_protocol = 3"
| "rank S_close_protocol = 4"
| "rank S_drain_protocol = 5"
| "rank S_close_transport = 6"
| "rank S_closed = 7"
| "rank S_error = 7"

lemma later_rank: "s' \<in> later s \<Longrightarrow> rank s < rank s' \<and> rank s' \<le> 7 \<and> s' \<noteq> S_uninitialized"
  by (cases s) auto

lemma goodD: "good S c \<Longrightarrow> conn_inv c" "good S c \<Longrightarrow> armed_io c" "good S c \<Longrightarrow> c_state c \<in> S"
  by (simp_all add: good_def)

lemma good_mono: "good S c \<Longrightarrow> S \<subseteq> S' \<Longrightarrow> good S' c"
  by (auto simp: good_def)

lemma good_enter_error: "conn_inv c \<Longrightarrow> S_error \<in> S \<Longrightarrow> ensures (good S) (enter_error T c)"
  by (rule ensures_mono [OF enter_error_spec]) (auto simp: good_def armed_io_def)

lemma good_state:
  "conn_inv c \<Longrightarrow> s \<in> {S_drain_protocol, S_close_transport} \<Longrightarrow> s \<in> S \<Longrightarrow> good S (c\<lparr>c_state := s\<rparr>)"
  using conn_inv_state(1) [of c s] by (auto simp: good_def armed_io_def fd_states_def)

lemma good_enter_close_transport:
  "conn_inv c \<Longrightarrow> S_close_transport \<in> S \<Longrightarrow> good S (enter_close_transport c)"
  by (simp add: enter_close_transport_def good_state)

lemma call_handler_spec:
  "ensures (\<lambda>(st, c'). c_state c' = c_state c \<and> c_fd c' = c_fd c \<and> c_calls c' = c_calls c
      \<and> conn_inv c' = conn_inv c) (call_handler h c)"
  by (auto simp: call_handler_def ensures_def defined_iff)

lemma transport_write_good:
  assumes "conn_inv c"
  shows "ensures (\<lambda>(b, c'). good {c_state c, S_close_transport, S_error} c' \<and> c_rx c' = c_rx c
    \<and> (b \<longrightarrow> c_state c' = c_state c)) (transport_write T True c)"
  by (rule ensures_mono [OF transport_write_spec [OF assms]]) (auto simp: tw_post_def good_def)

lemma consume_shutdown_loop_good:
  "conn_inv c \<Longrightarrow> c_state c = S_close_protocol \<Longrightarrow>
   ensures (\<lambda>(b, c'). good (insert S_close_protocol (later S_close_protocol)) c'
      \<and> (b \<longrightarrow> c_state c' = S_close_protocol)) (consume_shutdown_loop T h c)"
proof (induction T h c rule: consume_shutdown_loop.induct)
  case (1 T h c)
  note unfold = consume_shutdown_loop.simps [of T h c]
  show ?case
  proof (cases "call_handler h c")
    case None
    then show ?thesis by (simp add: unfold)
  next
    case (Some r)
    obtain st c1 where r: "r = (st, c1)" by (cases r)
    have c1: "conn_inv c1" "c_state c1 = S_close_protocol"
      using ensuresD [OF call_handler_spec Some] r "1.prems" by auto
    show ?thesis
    proof (cases st)
      case P_ok
      show ?thesis
      proof (cases "transport_write T True c1")
        case None
        then show ?thesis by (simp add: unfold Some r P_ok)
      next
        case tw: (Some r2)
        obtain b c2 where r2: "r2 = (b, c2)" by (cases r2)
        have c2: "good {S_close_protocol, S_close_transport, S_error} c2"
          using ensuresD [OF transport_write_good [OF c1(1)] tw] r2 c1 by auto
        then show ?thesis
          using "1.IH" [OF refl Some r [symmetric] P_ok tw r2 [symmetric]]
          by (auto simp: unfold Some r P_ok tw r2 good_def)
      qed
    next
      case P_close
      with c1 show ?thesis by (simp add: unfold Some r good_state)
    next
      case P_error
      with c1 have "ensures (good (insert S_close_protocol (later S_close_protocol))) (enter_error T c1)"
        by (simp add: good_enter_error)
      then show ?thesis by (simp add: unfold Some r P_error)
    qed
  qed
qed

lemma enter_close_protocol_loop_eq:
  "enter_close_protocol_loop T h c = map_option snd (consume_shutdown_loop T h c)"
proof (induction T h c rule: enter_close_protocol_loop.induct)
  case (1 T h c)
  show ?case
    unfolding enter_close_protocol_loop.simps [of T h c] consume_shutdown_loop.simps [of T h c] Let_def
    using "1.IH" [OF refl]
    by (auto simp: defined_iff map_option_case split: option.splits prod.splits protocol_status.splits)
qed

lemma enter_close_protocol_good:
  assumes "conn_inv c" "c_fd c \<noteq> -1"
  shows "ensures (good (later S_protocol)) (enter_close_protocol T c)"
proof (cases "p_on_shutdown (protocol_of T)")
  case None
  with assms show ?thesis by (simp add: enter_close_protocol_def good_enter_close_transport)
next
  case (Some h)
  have "conn_inv (c\<lparr>c_state := S_close_protocol\<rparr>)"
    using assms by (intro conn_inv_state) (simp_all add: fd_states_def)
  then have "ensures (\<lambda>r. good (later S_protocol) (snd r)) (consume_shutdown_loop T h (c\<lparr>c_state := S_close_protocol\<rparr>))"
    by (rule ensures_mono [OF consume_shutdown_loop_good]) auto
  with Some show ?thesis by (simp add: enter_close_protocol_def enter_close_protocol_loop_eq)
qed

lemma flush_close_good:
  assumes "conn_inv c"
  shows "ensures (good (later S_protocol)) (transport_write T True c \<bind> (\<lambda>(flushed, c).
     Some (if flushed then enter_close_transport c else c\<lparr>c_state := S_drain_protocol\<rparr>)))"
  unfolding ensures_bind
  by (rule ensures_mono [OF transport_write_good [OF assms]])
    (auto intro!: good_enter_close_transport good_state dest: goodD)

lemma good_live: "good S c \<Longrightarrow> c_state c \<in> fd_states \<Longrightarrow> c_fd c \<noteq> -1"
  by (simp add: good_def conn_inv_def)

lemma bind_protocol_good:
  assumes "conn_inv c" "c_state c = S_protocol"
  shows "ensures (good (insert S_protocol (later S_protocol))) (bind_protocol T h c)"
proof (cases "call_handler h c")
  case None
  then show ?thesis by (simp add: bind_protocol_def)
next
  case (Some r)
  obtain st c1 where r: "r = (st, c1)" by (cases r)
  note unfold = bind_protocol_def Some r
  have c1: "conn_inv c1" "c_state c1 = S_protocol"
    using ensuresD [OF call_handler_spec Some] r assms by auto
  note tw = transport_write_good [OF c1(1), of T, unfolded c1(2)]
  show ?thesis
  proof (cases st)
    case P_ok
    then show ?thesis
      by (simp add: unfold) (rule ensures_mono [OF tw], auto intro: good_mono)
  next
    case P_error
    with c1 show ?thesis by (simp add: unfold good_enter_error)
  next
    case P_close
    have rest: "ensures (good (insert S_protocol (later S_protocol)))
       (case p_on_shutdown (protocol_of T) of
          Some _ \<Rightarrow> (if c_state c2 = S_protocol then enter_close_protocol T c2 else Some (enter_close_transport c2))
        | None \<Rightarrow> transport_write T True c2 \<bind> (\<lambda>(flushed, c).
            Some (if flushed then enter_close_transport c else c\<lparr>c_state := S_drain_protocol\<rparr>)))"
      if c2: "good {S_protocol, S_close_transport, S_error} c2" for c2
    proof -
      from c2 have inv: "conn_inv c2" by (simp add: good_def)
      have "ensures (good (later S_protocol)) (enter_close_protocol T c2)" if "c_state c2 = S_protocol"
        using good_live [OF c2] that inv by (intro enter_close_protocol_good) (simp_all add: fd_states_def)
      then have "ensures (good (insert S_protocol (later S_protocol))) (enter_close_protocol T c2)"
        if "c_state c2 = S_protocol"
        using that good_mono by (blast intro: ensures_mono)
      moreover have "ensures (good (insert S_protocol (later S_protocol)))
          (transport_write T True c2 \<bind> (\<lambda>(flushed, c).
             Some (if flushed then enter_close_transport c else c\<lparr>c_state := S_drain_protocol\<rparr>)))"
        by (rule ensures_mono [OF flush_close_good [OF inv]]) (rule good_mono, auto)
      ultimately show ?thesis using inv by (auto simp: good_enter_close_transport simp del: ensures_bind split: option.splits)
    qed
    show ?thesis
      unfolding unfold P_close option.case prod.case protocol_status.case ensures_bind ensures_Some
      by (rule ensures_mono [OF tw]) (use rest in auto)
  qed
qed

lemma enter_Protocol_good:
  assumes "conn_inv c" "c_fd c \<noteq> -1"
  shows "ensures (good (insert S_protocol (later S_protocol))) (enter_Protocol T c)"
proof -
  have inv: "conn_inv (c\<lparr>c_state := S_protocol\<rparr>)"
    using assms by (intro conn_inv_state) (simp_all add: fd_states_def)
  have "ensures (\<lambda>r. good (insert S_protocol (later S_protocol)) (snd r)) (transport_write T True (c\<lparr>c_state := S_protocol\<rparr>))"
    by (rule ensures_mono [OF transport_write_good [OF inv]]) (auto intro: good_mono)
  with bind_protocol_good [OF inv, of T] show ?thesis
    by (auto simp: enter_Protocol_def case_prod_unfold Let_def split: option.splits)
qed

lemma protocol_consume_good:
  "good {S_protocol} c \<Longrightarrow> ensures (good (insert S_protocol (later S_protocol))) (protocol_consume T c)"
proof (induction T c rule: protocol_consume.induct)
  case (1 T c)
  note unfold = protocol_consume.simps [of T c]
  show ?case
  proof (cases "bind_protocol T (p_on_data (protocol_of T)) c")
    case None
    with "1.prems" show ?thesis by (auto simp: unfold intro: good_mono)
  next
    case (Some c1)
    from "1.prems" have "conn_inv c" "c_state c = S_protocol" by (auto dest: goodD)
    from ensuresD [OF bind_protocol_good [OF this] Some]
    have c1: "good (insert S_protocol (later S_protocol)) c1" .
    then have "c_state c1 = S_protocol \<Longrightarrow> good {S_protocol} c1" by (simp add: good_def)
    with "1.IH" [OF refl _ Some] c1 "1.prems" show ?thesis
      by (auto simp: unfold Some intro: good_mono)
  qed
qed

lemma consume_protocol_good:
  "good {S_protocol} c \<Longrightarrow>
   ensures (\<lambda>(b, c'). good (insert S_protocol (later S_protocol)) c' \<and> (b \<longrightarrow> c_state c' = S_protocol))
     (consume_protocol T c)"
  unfolding consume_protocol_def ensures_bind ensures_Some
  by (rule ensures_mono [OF protocol_consume_good]) auto

lemma consume_shutdown_good:
  "good {S_close_protocol} c \<Longrightarrow>
   ensures (\<lambda>(b, c'). good (insert S_close_protocol (later S_close_protocol)) c'
      \<and> (b \<longrightarrow> c_state c' = S_close_protocol)) (consume_shutdown T c)"
  using consume_shutdown_loop_good [of c T]
  by (auto simp: consume_shutdown_def dest: goodD intro!: good_state split: option.splits)

lemma arm_good:
  assumes "conn_inv c" "st \<in> {T_want_read, T_want_write}"
  shows "ensures (good {c_state c, S_error}) (arm T st c)"
  by (rule ensures_mono [OF arm_spec [OF assms(1)]]) (use assms(2) in \<open>auto simp: good_def armed_io_def\<close>)

lemma transport_read_good:
  assumes consume: "\<And>c. good {s} c \<Longrightarrow> ensures (\<lambda>(b, c'). good S c' \<and> (b \<longrightarrow> c_state c' = s)) (consume c)"
    and on_close: "\<And>c. good {s} c \<Longrightarrow> good S (on_close c)"
    and S: "s \<in> S" "S_error \<in> S"
    and c: "good {s} c"
  shows "ensures (good S) (transport_read T consume on_close c)"
proof (rule ensuresI)
  fix r assume r: "transport_read T consume on_close c = Some r"
  let ?P = "\<lambda>T consume' on_close' c r. consume' = consume \<longrightarrow> on_close' = on_close \<longrightarrow> good {s} c \<longrightarrow> good S r"
  show "good S r"
  proof (rule transport_read.raw_induct [where P = ?P, OF _ r, rule_format, OF _ refl refl c], goal_cases step)
    case (step rec T consume' on_close' c r)
    from step(5) have inv: "conn_inv c" and s: "c_state c = s" by (auto dest: goodD)
    show ?case
    proof (cases "full (c_rx c)")
      case True
      with step(2) have "enter_error T c = Some r" by simp
      with ensuresD [OF good_enter_error [OF inv S(2)]] show ?thesis by blast
    next
      case False
      then obtain st ep rx w where
        rd: "t_read (transport_of T) (c_transport c) (c_rx c) (c_world c) = Some (st, ep, rx, w)"
        using step(2) by (auto simp: defined_iff)
      let ?c = "c\<lparr>c_transport := ep, c_rx := rx, c_world := w\<rparr>"
      let ?m = "if length (rbuf rx) \<noteq> length (rbuf (c_rx c)) then consume ?c else Some (True, ?c)"
      have c: "good {s} ?c" using step(5) by (simp add: good_def armed_io_def)
      obtain b c1 where m: "?m = Some (b, c1)"
        and rest: "(if \<not> b then Some c1 else case st of T_ok \<Rightarrow> rec T consume on_close c1
           | T_close \<Rightarrow> Some (on_close c1) | T_error \<Rightarrow> enter_error T c1
           | T_want_read \<Rightarrow> arm T st c1 | T_want_write \<Rightarrow> arm T st c1) = Some r"
        using step(2-4) False rd by (auto simp: defined_iff Let_def)
      have c1: "good S c1" "b \<Longrightarrow> good {s} c1"
        using ensuresD [OF consume [OF c]] m c S(1) by (auto simp: good_def split: if_splits)
      show ?thesis
      proof (cases b)
        case False
        with rest c1 show ?thesis by simp
      next
        case True
        note c1s = c1(2) [OF True]
        then have inv1: "conn_inv c1" and s1: "c_state c1 = s" by (auto dest: goodD)
        show ?thesis
        proof (cases st)
          case T_ok
          with rest True have "rec T consume on_close c1 = Some r" by simp
          from step(1) [OF this] c1s show ?thesis by simp
        next
          case T_close
          with rest True on_close [OF c1s] show ?thesis by simp
        next
          case T_error
          with rest True ensuresD [OF good_enter_error [OF inv1 S(2)]] show ?thesis by simp
        next
          case T_want_read
          with rest True ensuresD [OF arm_good [OF inv1]] S s1 show ?thesis
            by (fastforce intro: good_mono)
        next
          case T_want_write
          with rest True ensuresD [OF arm_good [OF inv1]] S s1 show ?thesis
            by (fastforce intro: good_mono)
        qed
      qed
    qed
  qed
qed

definition armed :: "('w, 'e, 's, 't, 'p) conn \<Rightarrow> bool" where
  "armed c \<longleftrightarrow>
     (case c_state c of
        S_in_progress \<Rightarrow> wants_write (c_calls c)
      | S_transport \<Rightarrow> wants_read (c_calls c) \<or> wants_write (c_calls c)
      | S_protocol \<Rightarrow> wants_read (c_calls c) \<and> (rbuf (c_tx c) \<noteq> [] \<longrightarrow> wants_write (c_calls c))
      | S_close_protocol \<Rightarrow> wants_read (c_calls c) \<and> (rbuf (c_tx c) \<noteq> [] \<longrightarrow> wants_write (c_calls c))
      | S_drain_protocol \<Rightarrow>
          (wants_read (c_calls c) \<or> wants_write (c_calls c)) \<and>
          (rbuf (c_tx c) \<noteq> [] \<longrightarrow> wants_write (c_calls c))
      | S_close_transport \<Rightarrow> wants_read (c_calls c) \<or> wants_write (c_calls c)
      | _ \<Rightarrow> True)"

definition step_pre :: "('w, 'v, 'e, 's, 't, 'p) templ \<Rightarrow> ('w, 'e, 's, 't, 'p) conn \<Rightarrow> bool" where
  "step_pre T c \<longleftrightarrow> conn_inv c \<and> armed_io c \<and> (c_state c = S_in_progress \<longrightarrow> armed c) \<and>
     (c_state c = S_transport \<longrightarrow> t_handshake_step (transport_of T) \<noteq> None)"

definition step_post ::
    "('w, 'v, 'e, 's, 't, 'p) templ \<Rightarrow> ('w, 'e, 's, 't, 'p) conn \<Rightarrow> bool \<Rightarrow> ('w, 'e, 's, 't, 'p) conn \<Rightarrow> bool" where
  "step_post T c continue c' \<longleftrightarrow> step_pre T c' \<and>
     (c_state c' = c_state c \<or> c_state c' \<in> later (c_state c)) \<and>
     (\<not> continue \<or> c_state c' = c_state c \<longrightarrow> armed c')"

lemma conn_inv_release:
  assumes "replay (c_calls c) = Some (c_fd c)" "c_fd c \<noteq> -1" "c_state c = S_error"
  shows "conn_inv (release T c)"
  using assms replay_range [OF assms(1)] by (auto simp: conn_inv_def conn_done_def fd_states_def)

lemma teardown_protocol_spec:
  "ensures (\<lambda>c'. c_calls c' = c_calls c \<and> c_fd c' = c_fd c \<and> c_state c' = c_state c)
     (teardown_protocol T c)"
  by (auto simp: teardown_protocol_def ensures_def defined_iff split: option.splits)

lemma enter_connected_good:
  assumes "conn_inv c" "c_fd c \<noteq> -1"
  shows "ensures (\<lambda>c'. good (later S_in_progress) c' \<and>
     (c_state c' = S_transport \<longrightarrow> t_handshake_step (transport_of T) \<noteq> None)) (enter_connected T c)"
proof (cases "t_init (transport_of T) (c_fd c) (c_transport_config c) (c_world c)")
  case None
  then show ?thesis by (simp add: enter_connected_def)
next
  case (Some r)
  obtain tr w where r: "r = (tr, w)" by (cases r)
  note unfold = enter_connected_def Some r Let_def
  show ?thesis
  proof (cases tr)
    case None
    let ?c = "c\<lparr>c_world := w, c_state := S_error\<rparr>"
    have "ensures (\<lambda>c'. good {S_error} (release T c')) (teardown_protocol T ?c)"
      by (rule ensures_mono [OF teardown_protocol_spec])
        (use assms in \<open>auto simp: good_def armed_io_def conn_inv_def [of c] intro!: conn_inv_release\<close>)
    then have "ensures (\<lambda>c'. good (later S_in_progress) (release T c') \<and> c_state (release T c') \<noteq> S_transport)
        (teardown_protocol T ?c)"
      by (rule ensures_mono) (auto simp: good_def)
    then show ?thesis using None assms(2) by (simp add: unfold) (erule ensures_mono, simp)
  next
    case (Some ep)
    let ?c = "c\<lparr>c_world := w, c_transport := ep\<rparr>"
    show ?thesis
    proof (cases "t_handshake_step (transport_of T)")
      case None
      have "ensures (\<lambda>c'. good (insert S_protocol (later S_protocol)) c') (enter_Protocol T (subscribe T True False ?c))"
        using assms by (intro enter_Protocol_good) simp_all
      then have "ensures (\<lambda>c'. good (later S_in_progress) c' \<and> c_state c' \<noteq> S_transport) (enter_Protocol T (subscribe T True False ?c))"
        by (rule ensures_mono) (auto simp: good_def)
      then show ?thesis using None Some by (simp add: unfold)
    next
      case hs: (Some h)
      have "conn_inv (?c\<lparr>c_state := S_transport\<rparr>)"
        using assms by (intro conn_inv_state(2)) (simp_all add: fd_states_def)
      with hs Some show ?thesis by (simp add: unfold good_def armed_io_def)
    qed
  qed
qed

lemma good_step_post:
  assumes "good (later (c_state c)) c'"
    and "c_state c' = S_transport \<longrightarrow> t_handshake_step (transport_of T) \<noteq> None"
  shows "step_post T c True c'"
proof -
  have "c_state c' \<noteq> c_state c" "c_state c' \<noteq> S_in_progress"
    using goodD(3) [OF assms(1)] by (cases "c_state c"; auto)+
  with assms show ?thesis by (auto simp: step_post_def step_pre_def good_def)
qed

lemma error_step:
  "conn_inv c1 \<Longrightarrow> S_error \<in> later (c_state c) \<Longrightarrow> ensures (step_post T c True) (enter_error T c1)"
  by (rule ensures_mono [OF enter_error_spec]) (auto intro!: good_step_post simp: good_def armed_io_def)

lemma step_in_progress_spec:
  assumes "step_pre T c" "c_state c = S_in_progress"
  shows "ensures (step_post T c True) (step_in_progress T ev c)"
proof -
  from assms have inv: "conn_inv c" and fd: "c_fd c \<noteq> -1" and armed: "armed c"
    by (auto simp: step_pre_def conn_inv_def fd_states_def)
  have err: "ensures (step_post T c True) (enter_error T (c\<lparr>c_world := w\<rparr>))" for w
    using inv assms(2) by (intro error_step) simp_all
  have conn: "ensures (step_post T c True) (enter_connected T (c\<lparr>c_world := w\<rparr>))" for w
    by (rule ensures_mono [OF enter_connected_good])
      (use inv fd assms(2) in \<open>auto intro!: good_step_post\<close>)
  from err [of "c_world c"] have err0: "ensures (step_post T c True) (enter_error T c)" by simp
  have "step_post T c True c" using assms armed by (simp add: step_post_def)
  with err err0 conn show ?thesis
    by (auto simp: step_in_progress_def case_prod_unfold Let_def)
qed

lemma good_insert_step_post:
  assumes "good (insert (c_state c) (later (c_state c))) c'"
    and "c_state c \<in> {S_protocol, S_close_protocol}"
  shows "step_post T c True c'"
proof (cases "c_state c' = c_state c")
  case True
  with assms show ?thesis
    by (auto simp: step_post_def step_pre_def good_def armed_def armed_io_def)
next
  case False
  with assms show ?thesis by (intro good_step_post) (auto simp: good_def)
qed

lemma step_Transport_spec:
  assumes "step_pre T c" "c_state c = S_transport"
  shows "ensures (step_post T c True) (step_Transport T c)"
proof -
  from assms obtain h where inv: "conn_inv c" and fd: "c_fd c \<noteq> -1"
    and h: "t_handshake_step (transport_of T) = Some h"
    by (auto simp: step_pre_def conn_inv_def fd_states_def)
  have "ensures (step_post T c True)
      (if st = T_ok then enter_Protocol T (c\<lparr>c_transport := ep, c_world := w\<rparr>)
       else if st = T_close then enter_error T (c\<lparr>c_transport := ep, c_world := w\<rparr>)
       else arm T st (c\<lparr>c_transport := ep, c_world := w\<rparr>))" (is "ensures _ (if _ then enter_Protocol T ?c else _)")
    for st ep w
  proof -
    have inv': "conn_inv ?c" and fd': "c_fd ?c \<noteq> -1" using inv fd by simp_all
    have "ensures (step_post T c True) (enter_Protocol T ?c)"
      by (rule ensures_mono [OF enter_Protocol_good [OF inv' fd']])
        (use assms(2) in \<open>auto intro!: good_step_post simp: good_def\<close>)
    moreover have "ensures (step_post T c True) (enter_error T ?c)"
      using inv' assms(2) by (intro error_step) simp_all
    moreover have "ensures (step_post T c True) (arm T st ?c)" if "st \<noteq> T_ok" "st \<noteq> T_close"
      by (rule ensures_mono [OF arm_spec [OF inv']])
        (use that assms(2) h in \<open>cases st; auto simp: step_post_def step_pre_def armed_def armed_io_def\<close>)
    ultimately show ?thesis by simp
  qed
  then show ?thesis by (auto simp: step_Transport_def h case_prod_unfold Let_def intro: ensures_any)
qed

lemma tail_write_good:
  assumes "good (insert s (later s)) c" "s \<in> {S_protocol, S_close_protocol}"
  shows "ensures (good (insert s (later s)))
     (if b then transport_write T True c \<bind> (\<lambda>(_, c). Some c) else Some c)"
proof -
  have "ensures (\<lambda>(b, c'). good (insert s (later s)) c') (transport_write T True c)"
    by (rule ensures_mono [OF transport_write_good [OF goodD(1) [OF assms(1)]]])
      (use assms goodD(3) [OF assms(1)] in \<open>auto elim!: good_mono\<close>)
  with assms(1) show ?thesis by (auto simp: case_prod_unfold)
qed

lemma step_Protocol_spec:
  assumes "step_pre T c" "c_state c = S_protocol"
  shows "ensures (step_post T c True) (step_Protocol T ev c)"
proof -
  have c: "good {S_protocol} c" using assms by (simp add: good_def step_pre_def)
  have "ensures (good (insert S_protocol (later S_protocol)))
     (transport_read T (consume_protocol T) enter_close_transport c)"
    by (rule transport_read_good [OF consume_protocol_good _ _ _ c])
      (auto intro!: good_enter_close_transport dest: goodD)
  then have "ensures (good (insert S_protocol (later S_protocol)))
      (if net_ev_readable (net_of T) ev then transport_read T (consume_protocol T) enter_close_transport c
       else Some c)"
    using c by (auto intro: good_mono)
  then have "ensures (good (insert S_protocol (later S_protocol))) (step_Protocol T ev c)"
    unfolding step_Protocol_def ensures_bind by (rule ensures_mono) (rule tail_write_good, auto)
  then show ?thesis
    by (rule ensures_mono) (use assms(2) in \<open>auto intro!: good_insert_step_post\<close>)
qed

lemma step_close_protocol_spec:
  assumes "step_pre T c" "c_state c = S_close_protocol"
  shows "ensures (step_post T c True) (step_close_protocol T ev c)"
proof -
  have c: "good {S_close_protocol} c" using assms by (simp add: good_def step_pre_def)
  have "ensures (good (insert S_close_protocol (later S_close_protocol)))
     (transport_read T (consume_shutdown T) enter_close_transport c)"
    by (rule transport_read_good [OF consume_shutdown_good _ _ _ c])
      (auto intro!: good_enter_close_transport dest: goodD)
  then have "ensures (good (insert S_close_protocol (later S_close_protocol)))
      (if net_ev_readable (net_of T) ev then transport_read T (consume_shutdown T) enter_close_transport c
       else Some c)"
    using c by (auto intro: good_mono)
  then have "ensures (good (insert S_close_protocol (later S_close_protocol))) (step_close_protocol T ev c)"
    unfolding step_close_protocol_def ensures_bind by (rule ensures_mono) (rule tail_write_good, auto)
  then show ?thesis
    by (rule ensures_mono) (use assms(2) in \<open>auto intro!: good_insert_step_post\<close>)
qed

lemma step_drain_protocol_spec:
  assumes "step_pre T c" "c_state c = S_drain_protocol"
  shows "ensures (step_post T c True) (step_drain_protocol T ev c)"
proof -
  have c: "good {S_drain_protocol} c" using assms by (simp add: good_def step_pre_def)
  have rd: "ensures (good {S_drain_protocol, S_error}) (transport_read T (\<lambda>c. Some (True, c)) (\<lambda>c. c) c)"
    by (rule transport_read_good [OF _ _ _ _ c]) (auto simp: good_def)
  have wr: "ensures (step_post T c True) (transport_write T False c1 \<bind>
      (\<lambda>(flushed, c). Some (if flushed then enter_close_transport c else c)))"
    if c1: "good {S_drain_protocol, S_error} c1" for c1
    unfolding ensures_bind
  proof (rule ensures_mono [OF transport_write_spec [OF goodD(1) [OF c1], of False]], clarsimp)
    fix b c2 assume tw: "tw_post c1 False (b, c2)"
    then have inv: "conn_inv c2" and st: "c_state c2 \<in> {c_state c1, S_close_transport, S_error}"
      and wait: "\<not> b \<longrightarrow> c_state c2 = c_state c1 \<longrightarrow> c_state c1 \<noteq> S_close_transport \<longrightarrow>
         (wants_read (c_calls c2) \<or> wants_write (c_calls c2)) \<and> (rbuf (c_tx c2) \<noteq> [] \<longrightarrow> wants_write (c_calls c2))"
      unfolding tw_post_def by blast+
    then have "step_post T c True (enter_close_transport c2)"
      using assms(2) by (intro good_step_post good_enter_close_transport) (auto simp: enter_close_transport_def)
    moreover have "step_post T c True c2" if "\<not> b"
    proof (cases "c_state c2 = S_drain_protocol")
      case True
      with st goodD(3) [OF c1] have "c_state c2 = c_state c1" by auto
      with True wait that have "armed c2" by (simp add: armed_def)
      with True inv assms(2) show ?thesis by (simp add: step_post_def step_pre_def armed_io_def)
    next
      case False
      with st inv assms(2) goodD(3) [OF c1] show ?thesis
        by (intro good_step_post) (auto simp: good_def armed_io_def)
    qed
    ultimately show "(b \<longrightarrow> step_post T c True (enter_close_transport c2)) \<and> (\<not> b \<longrightarrow> step_post T c True c2)"
      by blast
  qed
  have clr: "good S (c1\<lparr>c_rx := clear (c_rx c1)\<rparr>) = good S c1" for S c1
    by (simp add: good_def armed_io_def)
  have "ensures (good {S_drain_protocol, S_error})
      (if (case ev of None \<Rightarrow> False | Some ev \<Rightarrow> net_ev_readable (net_of T) ev) then do {
            c \<leftarrow> transport_read T (\<lambda>c. Some (True, c)) (\<lambda>c. c) c;
            Some (c\<lparr>c_rx := clear (c_rx c)\<rparr>)
          } else Some c)"
    using rd c by (auto simp: clr intro: good_mono)
  then show ?thesis
    unfolding step_drain_protocol_def ensures_bind [of _ _ "\<lambda>c. _ c \<bind> _"]
    by (rule ensures_mono) (rule wr)
qed

lemma step_close_transport_spec:
  assumes "step_pre T c" "c_state c = S_close_transport"
  shows "ensures (step_post T c True) (step_close_transport T c)"
proof (cases "t_shutdown_step (transport_of T)")
  case None
  have inv: "conn_inv c" using assms by (simp add: step_pre_def)
  have "ensures (step_post T c True) (enter_closed T c)"
    by (rule ensures_mono [OF enter_closed_spec [OF inv]])
      (use assms(2) in \<open>auto intro!: good_step_post simp: good_def armed_io_def\<close>)
  with None show ?thesis by (simp add: step_close_transport_def)
next
  case (Some h)
  have "ensures (step_post T c True) (case st of
            T_ok \<Rightarrow> enter_closed T (c\<lparr>c_transport := ep, c_world := w\<rparr>)
          | T_error \<Rightarrow> enter_error T (c\<lparr>c_transport := ep, c_world := w\<rparr>)
          | T_close \<Rightarrow> enter_error T (c\<lparr>c_transport := ep, c_world := w\<rparr>)
          | T_want_read \<Rightarrow> arm T st (c\<lparr>c_transport := ep, c_world := w\<rparr>)
          | T_want_write \<Rightarrow> arm T st (c\<lparr>c_transport := ep, c_world := w\<rparr>))" for st ep w
  proof -
    let ?c = "c\<lparr>c_transport := ep, c_world := w\<rparr>"
    have inv: "conn_inv ?c" using assms by (simp add: step_pre_def)
    have "ensures (step_post T c True) (enter_closed T ?c)"
      by (rule ensures_mono [OF enter_closed_spec [OF inv]])
        (use assms(2) in \<open>auto intro!: good_step_post simp: good_def armed_io_def\<close>)
    moreover have "ensures (step_post T c True) (enter_error T ?c)"
      using inv assms(2) by (intro error_step) simp_all
    moreover have "ensures (step_post T c True) (arm T st ?c)" if "st \<in> {T_want_read, T_want_write}"
      by (rule ensures_mono [OF arm_spec [OF inv]])
        (use that assms(2) in \<open>auto simp: step_post_def step_pre_def armed_def armed_io_def\<close>)
    ultimately show ?thesis by (cases st) simp_all
  qed
  with Some show ?thesis
    by (auto simp: step_close_transport_def case_prod_unfold Let_def intro: ensures_any)
qed

lemma dispatch_spec:
  assumes "step_pre T c"
  shows "ensures (\<lambda>(b, c'). step_post T c b c') (dispatch T ev c)"
proof -
  have stay: "step_post T c False c" if "c_state c \<in> {S_in_progress, S_protocol, S_close_protocol, S_closed, S_error}"
    using assms that by (auto simp: step_post_def step_pre_def armed_io_def armed_def)
  show ?thesis
    using assms step_in_progress_spec step_Transport_spec step_Protocol_spec step_close_protocol_spec
      step_drain_protocol_spec step_close_transport_spec stay
    by (cases "c_state c") (auto simp: dispatch_def split: option.splits)
qed

text \<open>What holds between two calls of the public operations.\<close>

definition conn_ok :: "('w, 'v, 'e, 's, 't, 'p) templ \<Rightarrow> ('w, 'e, 's, 't, 'p) conn \<Rightarrow> bool" where
  "conn_ok T c \<longleftrightarrow> conn_inv c \<and> armed c \<and>
     (c_state c = S_transport \<longrightarrow> t_handshake_step (transport_of T) \<noteq> None)"

lemma armed_world [simp]: "armed (c\<lparr>c_world := w\<rparr>) = armed c"
  by (cases "c_state c") (simp_all add: armed_def)

lemma conn_ok_step_pre: "conn_ok T c \<Longrightarrow> step_pre T c"
  by (auto simp: conn_ok_def step_pre_def armed_def armed_io_def)

lemma conn_ok_from_step: "step_pre T c \<Longrightarrow> armed c \<Longrightarrow> conn_ok T c"
  by (simp add: conn_ok_def step_pre_def)

abbreviation reaches :: "state_t \<Rightarrow> state_t \<Rightarrow> bool" where
  "reaches \<equiv> (\<lambda>s s'. s' \<in> later s)\<^sup>*\<^sup>*"

lemma steps_spec:
  assumes "step_pre T c"
  shows "ensures (\<lambda>c'. conn_ok T c' \<and> reaches (c_state c) (c_state c')) (steps T ev c)"
proof (rule ensuresI)
  fix r assume r: "steps T ev c = Some r"
  let ?P = "\<lambda>T ev c r. step_pre T c \<longrightarrow> conn_ok T r \<and> reaches (c_state c) (c_state r)"
  show "conn_ok T r \<and> reaches (c_state c) (c_state r)"
  proof (rule steps.raw_induct [where P = ?P, OF _ r, rule_format, OF _ assms], goal_cases step)
    case (step rec T ev c r)
    then obtain b c1 where d: "dispatch T ev c = Some (b, c1)"
      and rest: "(if \<not> b then Some c1 else if c_state c1 = c_state c then Some c1 else rec T ev c1) = Some r"
      by (auto simp: defined_iff)
    from ensuresD [OF dispatch_spec [OF step(3)] d] have post: "step_post T c b c1" by simp
    show ?case
    proof (cases "\<not> b \<or> c_state c1 = c_state c")
      case True
      with rest post show ?thesis by (auto simp: step_post_def intro: conn_ok_from_step split: if_splits)
    next
      case False
      with rest have "rec T ev c1 = Some r" by simp
      from step(1) [OF this] post False show ?thesis
        by (auto simp: step_post_def intro: converse_rtranclp_into_rtranclp)
    qed
  qed
qed

section \<open>The public operations\<close>

lemma good_step_pre:
  "good S c \<Longrightarrow> S_in_progress \<notin> S \<Longrightarrow> (c_state c = S_transport \<longrightarrow> t_handshake_step (transport_of T) \<noteq> None) \<Longrightarrow>
     step_pre T c"
  by (auto simp: good_def step_pre_def)

lemma enter_uninitialized_ok:
  assumes "replay (c_calls c) = Some (-1)"
  shows "ensures (conn_ok T) (enter_uninitialized T c)"
proof -
  obtain result l w where d: "dial (net_of T) (resolver_of T) (c_host c) (c_port c) (c_calls c) (c_world c) = (result, l, w)"
    by (metis surj_pair)
  note dl = dial_log [OF d assms]
  let ?c = "c\<lparr>c_state := S_uninitialized, c_rx := clear (c_rx c), c_tx := clear (c_tx c), c_calls := l, c_world := w, c_fd := dr_fd result\<rparr>"
  have "ensures (conn_ok T) (enter_connected T ?c \<bind> steps T None)" if "dr_fd result \<noteq> -1"
  proof -
    have inv: "conn_inv ?c" using dl by (simp add: conn_inv_def conn_done_def fd_states_def)
    have "ensures (step_pre T) (enter_connected T ?c)"
      by (rule ensures_mono [OF enter_connected_good [OF inv]])
        (use that in \<open>auto intro!: good_step_pre\<close>)
    then show ?thesis
      unfolding ensures_bind by (rule ensures_mono) (rule ensures_mono [OF steps_spec], simp_all)
  qed
  then show ?thesis
    using dl by (auto simp: enter_uninitialized_def d Let_def conn_ok_def armed_def conn_inv_def
        conn_done_def fd_states_def simp del: ensures_bind)
qed

lemma handle_event_ok:
  "conn_ok T c \<Longrightarrow> ensures (\<lambda>c'. conn_ok T c' \<and> reaches (c_state c) (c_state c')) (handle_event T ev c)"
  unfolding handle_event_def by (rule steps_spec) (rule conn_ok_step_pre)

lemma restart_ok:
  assumes "conn_ok T c"
  shows "ensures (conn_ok T) (restart T c)"
proof -
  have "replay (c_calls c) = Some (c_fd c)" using assms by (simp add: conn_ok_def conn_inv_def)
  then have "ensures (\<lambda>c'. ensures (conn_ok T) (enter_uninitialized T
      (c'\<lparr>c_protocol := p_session (protocol_of T) (c_host c') (c_port c') (c_protocol_config c')\<rparr>))) (teardown T c)"
    by (intro ensures_mono [OF teardown_spec] enter_uninitialized_ok) auto
  with assms show ?thesis by (simp add: restart_def)
qed

lemma heartbeat_ok:
  assumes "conn_ok T c"
  shows "ensures (conn_ok T) (heartbeat T c)"
proof -
  have "ensures (\<lambda>(b, c'). conn_ok T c') (transport_write T True (c\<lparr>c_protocol := s, c_tx := tx, c_world := w\<rparr>))"
    if s: "c_state c = S_protocol" for s tx w
  proof (rule ensures_mono [OF transport_write_spec [of _ True]])
    let ?c = "c\<lparr>c_protocol := s, c_tx := tx, c_world := w\<rparr>"
    show "conn_inv ?c" using assms by (simp add: conn_ok_def)
    fix r assume r: "tw_post ?c True r"
    obtain b c' where bc: "r = (b, c')" by (cases r)
    from r have inv: "conn_inv c'" and io: "armed_io c'" and st: "c_state c' \<in> {S_protocol, S_close_transport, S_error}"
      and ct: "c_state c' = S_close_transport \<longrightarrow> c_calls c' = c_calls c"
      unfolding tw_post_def bc by (simp_all add: s)
    from assms s have "wants_read (c_calls c)" by (simp add: conn_ok_def armed_def)
    with io st ct have "armed c'" by (auto simp: armed_io_def armed_def)
    with inv st show "case r of (b, c') \<Rightarrow> conn_ok T c'" by (auto simp: bc conn_ok_def)
  qed
  with assms show ?thesis
    by (auto simp: heartbeat_def case_prod_unfold intro: ensures_any split: option.splits)
qed

lemma stop_switch_spec:
  assumes "conn_ok T c"
  shows "ensures (\<lambda>c'. step_pre T c' \<and> (c_state c' = S_uninitialized \<longrightarrow> c_state c = S_uninitialized)) (stop_switch T c)"
proof -
  have inv: "conn_inv c" using assms by (simp add: conn_ok_def)
  have closed: "ensures (\<lambda>c'. step_pre T c' \<and> c_state c' \<noteq> S_uninitialized) (enter_closed T c)"
    by (rule ensures_mono [OF enter_closed_spec [OF inv]]) (auto simp: step_pre_def armed_io_def)
  have ect: "step_pre T (enter_close_transport c)"
    using good_enter_close_transport [OF inv, of "{S_close_transport}"]
    by (rule good_step_pre) (auto simp: enter_close_transport_def)
  have ecp: "ensures (\<lambda>c'. step_pre T c' \<and> c_state c' \<noteq> S_uninitialized) (enter_close_protocol T c)"
    if "c_state c = S_protocol"
  proof (rule ensures_mono [OF enter_close_protocol_good [OF inv]])
    show "c_fd c \<noteq> -1" using conn_inv_live [OF inv] that by (simp add: fd_states_def)
    fix c' :: "('a, 'c, 'd, 'e, 'f) conn"
    assume g: "good (later S_protocol) c'"
    then have "step_pre T c'" by (rule good_step_pre) (use goodD(3) [OF g] in auto)
    then show "step_pre T c' \<and> c_state c' \<noteq> S_uninitialized" using goodD(3) [OF g] by auto
  qed
  show ?thesis
    using closed ect ecp conn_ok_step_pre [OF assms]
    by (simp add: stop_switch_def split: state_t.split) (auto simp: enter_close_transport_def elim: ensures_mono)
qed

lemma stop_ok:
  assumes "conn_ok T c"
  shows "ensures (conn_ok T) (stop T c)"
proof -
  have "ensures (\<lambda>c'. ensures (conn_ok T) (steps T None c')) (stop_switch T c)"
    by (rule ensures_mono [OF stop_switch_spec [OF assms]]) (rule ensures_mono [OF steps_spec], simp_all)
  then show ?thesis by (simp add: stop_def)
qed

text \<open>
  The life of a connection: constructed with buffers whose size is an \<open>int\<close>, attached once, then
  any sequence of events, heartbeats, stops and restarts, with the world changing in between.
\<close>

inductive lifecycle :: "('w, 'v, 'e, 's, 't, 'p) templ \<Rightarrow> ('w, 'e, 's, 't, 'p) conn \<Rightarrow> bool"
  for T :: "('w, 'v, 'e, 's, 't, 'p) templ" where
  life_attach: "rx_cap < 2 ^ 31 \<Longrightarrow> tx_cap < 2 ^ 31 \<Longrightarrow> attach T cookie (Connection T rx_cap tx_cap host port tc pc w) = Some c \<Longrightarrow> lifecycle T c"
| life_event: "lifecycle T c \<Longrightarrow> handle_event T ev c = Some c' \<Longrightarrow> lifecycle T c'"
| life_heartbeat: "lifecycle T c \<Longrightarrow> heartbeat T c = Some c' \<Longrightarrow> lifecycle T c'"
| life_restart: "lifecycle T c \<Longrightarrow> restart T c = Some c' \<Longrightarrow> lifecycle T c'"
| life_stop: "lifecycle T c \<Longrightarrow> stop T c = Some c' \<Longrightarrow> lifecycle T c'"
| life_world: "lifecycle T c \<Longrightarrow> lifecycle T (c\<lparr>c_world := w\<rparr>)"

lemma lifecycle_ok: "lifecycle T c \<Longrightarrow> conn_ok T c"
proof (induction rule: lifecycle.induct)
  case (life_attach rx_cap tx_cap cookie host port tc pc w c)
  then have "enter_uninitialized T ((Connection T rx_cap tx_cap host port tc pc w)\<lparr>c_cookie := cookie\<rparr>) = Some c"
    by (simp add: attach_def Connection_def)
  then show ?case by (rule ensuresD [OF enter_uninitialized_ok, rotated]) (simp add: Connection_def)
next
  case (life_event c ev c')
  from ensuresD [OF handle_event_ok [OF life_event.IH] life_event.hyps(2)] show ?case by simp
next
  case (life_heartbeat c c')
  from ensuresD [OF heartbeat_ok [OF life_heartbeat.IH] life_heartbeat.hyps(2)] show ?case .
next
  case (life_restart c c')
  from ensuresD [OF restart_ok [OF life_restart.IH] life_restart.hyps(2)] show ?case .
next
  case (life_stop c c')
  from ensuresD [OF stop_ok [OF life_stop.IH] life_stop.hyps(2)] show ?case .
next
  case (life_world c w)
  then show ?case by (simp add: conn_ok_def)
qed

end
