(* ===== verification/Backend.thy ===== *)
theory Backend
  imports Connection_Inv
begin

text \<open>
  What a connection relies on when it arms a network backend.  The locale \<open>event_backend\<close> states
  the contract of \<open>subscribe\<close> that the two backends of the repository share: afterwards the backend
  watches the descriptor for exactly the requested directions and hands back the cookie, and no other
  descriptor is affected.  \<open>clearing_backend\<close> adds the contract of \<open>clear\<close>.  Both are interpreted in
  the theories of the backends; the lemmas carry the contract to the connection's own calls.
\<close>

text \<open>Asking for no direction at all is not a call the code makes, and not part of the contract.\<close>

locale event_backend =
  fixes nt :: "'env \<Rightarrow> ('w, 'v) net"
    and env_ok :: "'env \<Rightarrow> bool"
    and usable :: "'env \<Rightarrow> 'w \<Rightarrow> fd \<Rightarrow> bool"
    and watches :: "'env \<Rightarrow> 'w \<Rightarrow> fd \<Rightarrow> bool \<times> bool"
    and cookie :: "'env \<Rightarrow> 'w \<Rightarrow> fd \<Rightarrow> ptr"
  assumes subscribe_watches:
    "env_ok env \<Longrightarrow> usable env w f \<Longrightarrow> r \<or> v \<Longrightarrow> k < 2 ^ 64 \<Longrightarrow>
       watches env (net_subscribe (nt env) k f r v w) f = (r, v) \<and> cookie env (net_subscribe (nt env) k f r v w) f = k"
    and subscribe_frame:
    "env_ok env \<Longrightarrow> usable env w f \<Longrightarrow> g \<noteq> f \<Longrightarrow>
       watches env (net_subscribe (nt env) k f r v w) g = watches env w g"
begin

text \<open>
  After \<open>subscribe\<close> of the connection, the backend watches what the log of the connection says.
\<close>

lemma connection_subscribe:
  assumes "env_ok env" "net_of T = nt env" "usable env (c_world c) (c_fd c)" "r \<or> v" "c_cookie c < 2 ^ 64"
  defines "c' \<equiv> subscribe T r v c"
  shows "watches env (c_world c') (c_fd c') = (wants_read (c_calls c'), wants_write (c_calls c')) \<and>
     cookie env (c_world c') (c_fd c') = c_cookie c"
  using subscribe_watches [OF assms(1,3,4,5)] assms(2) by (simp add: c'_def) (simp add: subscribe_def)

lemma connection_subscribe_others:
  assumes "env_ok env" "net_of T = nt env" "usable env (c_world c) (c_fd c)" "g \<noteq> c_fd c"
  shows "watches env (c_world (subscribe T r v c)) g = watches env (c_world c) g"
  using subscribe_frame [OF assms(1,3,4)] assms(2) by (simp add: subscribe_def)

end

locale clearing_backend = event_backend nt env_ok usable watches cookie
  for nt :: "'env \<Rightarrow> ('w, 'v) net" and env_ok :: "'env \<Rightarrow> bool" and usable :: "'env \<Rightarrow> 'w \<Rightarrow> fd \<Rightarrow> bool"
    and watches :: "'env \<Rightarrow> 'w \<Rightarrow> fd \<Rightarrow> bool \<times> bool" and cookie :: "'env \<Rightarrow> 'w \<Rightarrow> fd \<Rightarrow> ptr" +
  assumes clear_watches: "env_ok env \<Longrightarrow> usable env w f \<Longrightarrow> watches env (net_clear (nt env) f w) f = (False, False)"
    and close_watches: "env_ok env \<Longrightarrow> watches env (snd (net_close (nt env) f w)) f = (False, False)"
begin

lemma connection_release:
  assumes "env_ok env" "net_of T = nt env"
  shows "watches env (c_world (release T c)) (c_fd c) = (False, False)"
  using close_watches [OF assms(1), of "c_fd c" "net_clear (nt env) (c_fd c) (c_world c)"] assms(2)
  by (simp add: release_def case_prod_unfold Let_def)

end

end
