(* ===== verification/Epoll.thy ===== *)
theory Epoll
  imports Backend
begin

text \<open>
  \<^verbatim>\<open>include/manet/net/epoll.hpp\<close> and \<^verbatim>\<open>src/manet/net/epoll.cc\<close>: the backend on the epoll
  interface of the kernel.  The three static members and the kernel make up the world; the
  system calls the code makes are the record \<open>kernel\<close>.  An \<open>epoll_event\<close> keeps its data as the
  64-bit union it is: \<open>data.ptr\<close> reads all of it, \<open>data.fd\<close> the low 32 bits.
\<close>

section \<open>The kernel\<close>

record epoll_event =
  ev_events :: u32
  ev_data :: u64

definition data_ptr :: "u64 \<Rightarrow> ptr" where
  "data_ptr d = unat d"

definition data_fd :: "u64 \<Rightarrow> fd" where
  "data_fd d = sint (ucast d :: 32 word)"

definition EPOLLIN :: u32 where "EPOLLIN = 0x001"
definition EPOLLOUT :: u32 where "EPOLLOUT = 0x004"
definition EPOLLERR :: u32 where "EPOLLERR = 0x008"
definition EPOLLHUP :: u32 where "EPOLLHUP = 0x010"
definition EPOLLRDHUP :: u32 where "EPOLLRDHUP = 0x2000"
definition EPOLLET :: u32 where "EPOLLET = 0x80000000"

definition SOCK_NONBLOCK :: int where "SOCK_NONBLOCK = 0x800"
definition poll_frequency_ms :: int where "poll_frequency_ms = 100"

datatype epoll_op = EPOLL_CTL_ADD | EPOLL_CTL_DEL | EPOLL_CTL_MOD

record 'k kernel =
  sys_socket :: "int \<Rightarrow> int \<Rightarrow> int \<Rightarrow> 'k \<Rightarrow> (fd \<times> errno) \<times> 'k"
  sys_ioctl :: "fd \<Rightarrow> int \<Rightarrow> int \<Rightarrow> 'k \<Rightarrow> (int \<times> errno) \<times> 'k"
  sys_connect :: "fd \<Rightarrow> byte list \<Rightarrow> nat \<Rightarrow> 'k \<Rightarrow> (int \<times> errno) \<times> 'k"
  sys_close :: "fd \<Rightarrow> 'k \<Rightarrow> int \<times> 'k"
  sys_getsockopt :: "fd \<Rightarrow> int \<Rightarrow> int \<Rightarrow> 'k \<Rightarrow> (int \<times> int) \<times> 'k"
  sys_read :: "fd \<Rightarrow> nat \<Rightarrow> 'k \<Rightarrow> (int \<times> errno \<times> byte list) \<times> 'k"
  sys_write :: "fd \<Rightarrow> byte list \<Rightarrow> 'k \<Rightarrow> (int \<times> errno) \<times> 'k"
  sys_epoll_create1 :: "'k \<Rightarrow> fd \<times> 'k"
  sys_eventfd :: "'k \<Rightarrow> fd \<times> 'k"
  sys_epoll_ctl :: "fd \<Rightarrow> epoll_op \<Rightarrow> fd \<Rightarrow> epoll_event \<Rightarrow> 'k \<Rightarrow> (int \<times> errno) \<times> 'k"
  sys_epoll_wait :: "fd \<Rightarrow> nat \<Rightarrow> int \<Rightarrow> 'k \<Rightarrow> (int \<times> epoll_event list) \<times> 'k"

section \<open>The backend\<close>

record 'k epoll =
  ep_event_fd :: fd
  ep_signal_fd :: fd
  ep_alive :: bool
  ep_kernel :: 'k

definition new_epoll :: "'k \<Rightarrow> 'k epoll" where
  "new_epoll k = \<lparr>ep_event_fd = -1, ep_signal_fd = -1, ep_alive = False, ep_kernel = k\<rparr>"

text \<open>A system call on the kernel inside the world.\<close>

definition syscall :: "('k \<Rightarrow> 'r \<times> 'k) \<Rightarrow> 'k epoll \<Rightarrow> 'r \<times> 'k epoll" where
  "syscall f w = (let (r, k) = f (ep_kernel w) in (r, w\<lparr>ep_kernel := k\<rparr>))"

definition epoll_socket :: "'k kernel \<Rightarrow> int \<Rightarrow> int \<Rightarrow> int \<Rightarrow> 'k epoll \<Rightarrow> (fd \<times> errno) \<times> 'k epoll" where
  "epoll_socket K domain type proto = syscall (sys_socket K domain (type OR SOCK_NONBLOCK) proto)"

definition epoll_init :: "'k kernel \<Rightarrow> unit \<Rightarrow> 'k epoll \<Rightarrow> (string + unit) \<times> 'k epoll" where
  "epoll_init K cfg w =
     (let (efd, w) = syscall (sys_epoll_create1 K) w; w = w\<lparr>ep_event_fd := efd\<rparr> in
      if efd < 0 then (Inl ''failed to create epoll fd'', w)
      else
        let (sfd, w) = syscall (sys_eventfd K) w; w = w\<lparr>ep_signal_fd := sfd\<rparr> in
        if sfd < 0 then (Inl ''failed to create kill eventfd'', w)
        else
          let ev = \<lparr>ev_events = EPOLLIN, ev_data = ucast (word_of_int sfd :: u32)\<rparr>;
              ((rc, e), w) = syscall (sys_epoll_ctl K efd EPOLL_CTL_ADD sfd ev) w
          in if rc < 0 then (Inl ''failed to subscribe to killfd'', w)
             else (Inr (), w\<lparr>ep_alive := True\<rparr>))"

definition epoll_signal :: "'k kernel \<Rightarrow> 'k epoll \<Rightarrow> 'k epoll" where
  "epoll_signal K w =
     (if ep_signal_fd w \<noteq> -1 then snd (syscall (sys_write K (ep_signal_fd w) [1, 0, 0, 0, 0, 0, 0, 0]) w) else w)"

definition epoll_stop :: "'k kernel \<Rightarrow> 'k epoll \<Rightarrow> 'k epoll" where
  "epoll_stop K w =
     (let w = w\<lparr>ep_alive := False\<rparr>;
          w = (if ep_signal_fd w \<noteq> -1
               then (snd (syscall (sys_close K (ep_signal_fd w)) w))\<lparr>ep_signal_fd := -1\<rparr> else w)
      in if ep_event_fd w \<noteq> -1
         then (snd (syscall (sys_close K (ep_event_fd w)) w))\<lparr>ep_event_fd := -1\<rparr> else w)"

text \<open>The clamp to the largest \<open>int\<close>; the comparison is on integers.\<close>

definition epoll_poll :: "'k kernel \<Rightarrow> nat \<Rightarrow> 'k epoll \<Rightarrow> (int \<times> epoll_event list) \<times> 'k epoll" where
  "epoll_poll K len w =
     (let len = (if int len < 2147483647 then len else nat 2147483647)
      in syscall (sys_epoll_wait K (ep_event_fd w) len poll_frequency_ms) w)"

definition epoll_ev_signal :: "'k kernel \<Rightarrow> epoll_event \<Rightarrow> 'k epoll \<Rightarrow> bool \<times> 'k epoll" where
  "epoll_ev_signal K ev w =
     (if data_fd (ev_data ev) = ep_signal_fd w \<and> ev_events ev AND EPOLLIN \<noteq> 0
      then (True, snd (syscall (sys_read K (ep_signal_fd w) 8) w)) else (False, w))"

definition epoll_ev_close :: "epoll_event \<Rightarrow> bool" where
  "epoll_ev_close ev \<longleftrightarrow> ev_events ev AND (EPOLLHUP OR EPOLLRDHUP) \<noteq> 0"

definition epoll_ev_error :: "epoll_event \<Rightarrow> bool" where
  "epoll_ev_error ev \<longleftrightarrow> ev_events ev AND EPOLLERR \<noteq> 0"

definition epoll_ev_readable :: "epoll_event \<Rightarrow> bool" where
  "epoll_ev_readable ev \<longleftrightarrow> ev_events ev AND EPOLLIN \<noteq> 0"

definition epoll_ev_writeable :: "epoll_event \<Rightarrow> bool" where
  "epoll_ev_writeable ev \<longleftrightarrow> ev_events ev AND EPOLLOUT \<noteq> 0"

definition epoll_get_user_data :: "epoll_event \<Rightarrow> ptr" where
  "epoll_get_user_data ev = data_ptr (ev_data ev)"

definition interest :: "ptr \<Rightarrow> bool \<Rightarrow> bool \<Rightarrow> epoll_event" where
  "interest p want_read want_write =
     \<lparr>ev_events = EPOLLERR OR EPOLLHUP OR EPOLLET OR (if want_read then EPOLLIN else 0) OR (if want_write then EPOLLOUT else 0),
      ev_data = of_nat p\<rparr>"

definition epoll_subscribe :: "'k kernel \<Rightarrow> ptr \<Rightarrow> fd \<Rightarrow> bool \<Rightarrow> bool \<Rightarrow> 'k epoll \<Rightarrow> 'k epoll" where
  "epoll_subscribe K p f want_read want_write w =
     (let ee = interest p want_read want_write;
          ((rc, e), w) = syscall (sys_epoll_ctl K (ep_event_fd w) EPOLL_CTL_MOD f ee) w
      in if rc \<noteq> 0 then
           (case e of
              ENOENT \<Rightarrow> snd (syscall (sys_epoll_ctl K (ep_event_fd w) EPOLL_CTL_ADD f ee) w)
            | EEXIST \<Rightarrow> snd (syscall (sys_epoll_ctl K (ep_event_fd w) EPOLL_CTL_MOD f ee) w)
            | _ \<Rightarrow> w)
         else w)"

text \<open>The event argument of a deletion is ignored by the kernel; the code passes a null pointer.\<close>

definition epoll_clear :: "'k kernel \<Rightarrow> fd \<Rightarrow> 'k epoll \<Rightarrow> 'k epoll" where
  "epoll_clear K f w =
     snd (syscall (sys_epoll_ctl K (ep_event_fd w) EPOLL_CTL_DEL f \<lparr>ev_events = 0, ev_data = 0\<rparr>) w)"

definition Epoll :: "'k kernel \<Rightarrow> ('k epoll, epoll_event) net" where
  "Epoll K =
     \<lparr>net_socket = epoll_socket K, net_ioctl = (\<lambda>f req arg. syscall (sys_ioctl K f req arg)),
      net_connect = (\<lambda>f sa l. syscall (sys_connect K f sa l)), net_close = (\<lambda>f. syscall (sys_close K f)),
      net_getsockopt = (\<lambda>f level opt. syscall (sys_getsockopt K f level opt)),
      net_read = (\<lambda>f n. syscall (sys_read K f n)), net_write = (\<lambda>f bs. syscall (sys_write K f bs)),
      net_stop = epoll_stop K, net_poll = epoll_poll K, net_ev_signal = epoll_ev_signal K,
      net_ev_close = epoll_ev_close, net_ev_error = epoll_ev_error, net_ev_readable = epoll_ev_readable,
      net_ev_writeable = epoll_ev_writeable, net_get_user_data = epoll_get_user_data,
      net_subscribe = epoll_subscribe K, net_clear = epoll_clear K\<rparr>"

text \<open>\<open>Epoll::run\<close> calls the loop while the backend is alive; \<open>alive\<close> reads the flag off the loop's state.\<close>

partial_function (option) epoll_run :: "('r \<Rightarrow> bool) \<Rightarrow> ('r \<Rightarrow> 'r option) \<Rightarrow> 'r \<Rightarrow> 'r option" where
  "epoll_run alive loop r = (if alive r then do { r \<leftarrow> loop r; epoll_run alive loop r } else Some r)"

declare epoll_run.simps [code]

section \<open>The contract of the backend\<close>

text \<open>
  The documented behaviour of \<open>epoll_ctl\<close> on a descriptor that is open (\<open>usable\<close>): \<open>reg\<close> is the
  interest list of an epoll instance.  A modification needs an entry, an addition needs none, and a
  deletion or closing the descriptor leaves none.
\<close>

type_synonym 'k epoll_env = "'k kernel \<times> ('k \<Rightarrow> fd \<Rightarrow> fd \<Rightarrow> epoll_event option) \<times> ('k \<Rightarrow> fd \<Rightarrow> fd \<Rightarrow> bool)"

fun mod_ok :: "'k epoll_env \<Rightarrow> bool" where
  "mod_ok (K, reg, usable) \<longleftrightarrow>
     (\<forall>e f ev k rc er k'. usable k e f \<longrightarrow> sys_epoll_ctl K e EPOLL_CTL_MOD f ev k = ((rc, er), k') \<longrightarrow>
        (if reg k e f = None then rc \<noteq> 0 \<and> er = ENOENT \<and> reg k' = reg k \<and> usable k' e f
         else rc = 0 \<and> reg k' e = (reg k e)(f \<mapsto> ev)))"

fun add_ok :: "'k epoll_env \<Rightarrow> bool" where
  "add_ok (K, reg, usable) \<longleftrightarrow>
     (\<forall>e f ev k rc er k'. usable k e f \<longrightarrow> reg k e f = None \<longrightarrow>
        sys_epoll_ctl K e EPOLL_CTL_ADD f ev k = ((rc, er), k') \<longrightarrow> reg k' e = (reg k e)(f \<mapsto> ev))"

fun del_ok :: "'k epoll_env \<Rightarrow> bool" where
  "del_ok (K, reg, usable) \<longleftrightarrow>
     (\<forall>e f ev k rc er k'. usable k e f \<longrightarrow>
        sys_epoll_ctl K e EPOLL_CTL_DEL f ev k = ((rc, er), k') \<longrightarrow> reg k' e = (reg k e)(f := None))"

fun close_ok :: "'k epoll_env \<Rightarrow> bool" where
  "close_ok (K, reg, usable) \<longleftrightarrow> (\<forall>e f k. reg (snd (sys_close K f k)) e f = None)"

declare mod_ok.simps [simp del] add_ok.simps [simp del] del_ok.simps [simp del] close_ok.simps [simp del]

definition kernel_ok :: "'k epoll_env \<Rightarrow> bool" where
  "kernel_ok env \<longleftrightarrow> mod_ok env \<and> add_ok env \<and> del_ok env \<and> close_ok env"

fun epoll_usable :: "'k epoll_env \<Rightarrow> 'k epoll \<Rightarrow> fd \<Rightarrow> bool" where
  "epoll_usable (K, reg, usable) w f = usable (ep_kernel w) (ep_event_fd w) f"

fun epoll_entry :: "'k epoll_env \<Rightarrow> 'k epoll \<Rightarrow> fd \<Rightarrow> epoll_event option" where
  "epoll_entry (K, reg, usable) w f = reg (ep_kernel w) (ep_event_fd w) f"

definition epoll_watches :: "'k epoll_env \<Rightarrow> 'k epoll \<Rightarrow> fd \<Rightarrow> bool \<times> bool" where
  "epoll_watches env w f =
     (case epoll_entry env w f of None \<Rightarrow> (False, False) | Some ev \<Rightarrow> (epoll_ev_readable ev, epoll_ev_writeable ev))"

definition epoll_cookie :: "'k epoll_env \<Rightarrow> 'k epoll \<Rightarrow> fd \<Rightarrow> ptr" where
  "epoll_cookie env w f = (case epoll_entry env w f of None \<Rightarrow> 0 | Some ev \<Rightarrow> epoll_get_user_data ev)"

lemma interest_bits:
  "epoll_ev_readable (interest p r v) = r" "epoll_ev_writeable (interest p r v) = v"
  "p < 2 ^ 64 \<Longrightarrow> epoll_get_user_data (interest p r v) = p"
proof -
  show "epoll_ev_readable (interest p r v) = r" "epoll_ev_writeable (interest p r v) = v"
    by (cases r; cases v; simp add: epoll_ev_readable_def epoll_ev_writeable_def interest_def EPOLLIN_def EPOLLOUT_def
        EPOLLERR_def EPOLLHUP_def EPOLLET_def)+
  show "epoll_get_user_data (interest p r v) = p" if "p < 2 ^ 64"
    using that by (simp add: epoll_get_user_data_def interest_def data_ptr_def unat_of_nat take_bit_nat_eq_self)
qed

lemma kernel_mod:
  assumes "kernel_ok (K, reg, usable)" "usable k e f" "sys_epoll_ctl K e EPOLL_CTL_MOD f ev k = ((rc, er), k')"
  shows "if reg k e f = None then rc \<noteq> 0 \<and> er = ENOENT \<and> reg k' = reg k \<and> usable k' e f
     else rc = 0 \<and> reg k' e = (reg k e)(f \<mapsto> ev)"
proof -
  have "mod_ok (K, reg, usable)" using assms(1) by (simp add: kernel_ok_def)
  with assms(2,3) show ?thesis unfolding mod_ok.simps by blast
qed

lemma kernel_add:
  assumes "kernel_ok (K, reg, usable)" "usable k e f" "reg k e f = None" "sys_epoll_ctl K e EPOLL_CTL_ADD f ev k = ((rc, er), k')"
  shows "reg k' e = (reg k e)(f \<mapsto> ev)"
proof -
  have "add_ok (K, reg, usable)" using assms(1) by (simp add: kernel_ok_def)
  with assms(2-4) show ?thesis unfolding add_ok.simps by blast
qed

lemma kernel_del:
  assumes "kernel_ok (K, reg, usable)" "usable k e f" "sys_epoll_ctl K e EPOLL_CTL_DEL f ev k = ((rc, er), k')"
  shows "reg k' e = (reg k e)(f := None)"
proof -
  have "del_ok (K, reg, usable)" using assms(1) by (simp add: kernel_ok_def)
  with assms(2,3) show ?thesis unfolding del_ok.simps by blast
qed

lemma kernel_close: "kernel_ok (K, reg, usable) \<Longrightarrow> reg (snd (sys_close K f k)) e f = None"
  by (simp add: kernel_ok_def close_ok.simps)

lemma epoll_subscribe_entry:
  assumes "kernel_ok (K, reg, usable)" "usable (ep_kernel w) (ep_event_fd w) f"
  shows "epoll_entry (K, reg, usable) (epoll_subscribe K p f r v w) =
     (epoll_entry (K, reg, usable) w)(f \<mapsto> interest p r v)"
proof -
  let ?k = "ep_kernel w" and ?e = "ep_event_fd w" and ?ev = "interest p r v"
  obtain rc er k1 where m: "sys_epoll_ctl K ?e EPOLL_CTL_MOD f ?ev ?k = ((rc, er), k1)" by (metis surj_pair)
  show ?thesis
  proof (cases "reg ?k ?e f = None")
    case True
    with kernel_mod [OF assms m] have rc: "rc \<noteq> 0" "er = ENOENT" and k1: "reg k1 = reg ?k" "usable k1 ?e f"
      by simp_all
    obtain rc2 er2 k2 where a: "sys_epoll_ctl K ?e EPOLL_CTL_ADD f ?ev k1 = ((rc2, er2), k2)" by (metis surj_pair)
    have "reg k1 ?e f = None" using k1 True by simp
    note add = kernel_add [OF assms(1) k1(2) this a]
    with rc m a k1 show ?thesis by (simp add: epoll_subscribe_def syscall_def fun_eq_iff add)
  next
    case False
    with kernel_mod [OF assms m] have "rc = 0" "reg k1 ?e = (reg ?k ?e)(f \<mapsto> ?ev)" by simp_all
    with m show ?thesis by (simp add: epoll_subscribe_def syscall_def fun_eq_iff)
  qed
qed

lemma epoll_clear_entry:
  assumes "kernel_ok (K, reg, usable)" "usable (ep_kernel w) (ep_event_fd w) f"
  shows "epoll_entry (K, reg, usable) (epoll_clear K f w) f = None"
proof -
  obtain rc er k1 where d: "sys_epoll_ctl K (ep_event_fd w) EPOLL_CTL_DEL f \<lparr>ev_events = 0, ev_data = 0\<rparr> (ep_kernel w) = ((rc, er), k1)"
    by (metis surj_pair)
  with kernel_del [OF assms d] show ?thesis by (simp add: epoll_clear_def syscall_def)
qed

interpretation epoll: clearing_backend "\<lambda>(K, reg, usable). Epoll K" kernel_ok epoll_usable epoll_watches epoll_cookie
proof (unfold_locales, goal_cases)
  case (1 env w f r v k)
  obtain K reg usable where env: "env = (K, reg, usable)" by (cases env)
  with 1 epoll_subscribe_entry [of K reg usable w f k r v] show ?case
    by (simp add: Epoll_def epoll_watches_def epoll_cookie_def interest_bits)
next
  case (2 env w f g k r v)
  obtain K reg usable where env: "env = (K, reg, usable)" by (cases env)
  with 2 epoll_subscribe_entry [of K reg usable w f k r v] show ?case
    by (simp add: Epoll_def epoll_watches_def)
next
  case (3 env w f)
  obtain K reg usable where env: "env = (K, reg, usable)" by (cases env)
  with 3 epoll_clear_entry [of K reg usable w f] show ?case by (simp add: Epoll_def epoll_watches_def)
next
  case (4 env f w)
  obtain K reg usable where env: "env = (K, reg, usable)" by (cases env)
  from kernel_close [of K reg usable] 4 env have "reg (snd (sys_close K f (ep_kernel w))) (ep_event_fd w) f = None" by simp
  then show ?case by (simp add: env Epoll_def epoll_watches_def syscall_def case_prod_unfold Let_def)
qed

end
