(* ===== verification/Connection_Live.thy ===== *)
theory Connection_Live
  imports Connection_Inv
begin

text \<open>
  Termination of the connection.  The loops of \<open>connection.hpp\<close> are guarded by progress of the
  receive buffer, of the transmit buffer, or of the state machine, except the read loop, which
  goes on as long as the transport delivers.  The locale \<open>live_templ\<close> states what the template
  arguments must do for that loop to end: every call returns, and a potential of the world (how
  much the peer has already delivered) decreases with every read that delivers and never
  increases during a call.  Under these laws every public operation returns.  The locale is
  interpreted on the plain transport over a live backend and a total session.
\<close>

section \<open>The laws\<close>

definition live_handler :: "('w \<Rightarrow> nat) \<Rightarrow> ('w, 's) handler \<Rightarrow> bool" where
  "live_handler pot h \<longleftrightarrow> (\<forall>s rx tx w. buffer_ok rx \<longrightarrow> buffer_ok tx \<longrightarrow>
     returns (\<lambda>(st, s', rx', tx', w'). shrinks rx rx' \<and> extends tx tx' \<and> pot w' \<le> pot w) (h s rx tx w))"

definition live_protocol :: "('w \<Rightarrow> nat) \<Rightarrow> ('w, 's, 'p) protocol \<Rightarrow> bool" where
  "live_protocol pot P \<longleftrightarrow>
     live_handler pot (p_on_data P) \<and> pred_option (live_handler pot) (p_on_connect P) \<and>
     pred_option (live_handler pot) (p_on_shutdown P) \<and>
     (case p_heartbeat P of None \<Rightarrow> True | Some hb \<Rightarrow> \<forall>s tx w. buffer_ok tx \<longrightarrow>
        returns (\<lambda>(s', tx', w'). extends tx tx' \<and> pot w' \<le> pot w) (hb s tx w)) \<and>
     (case p_teardown P of None \<Rightarrow> True | Some td \<Rightarrow> \<forall>s w. returns (\<lambda>(s', w'). pot w' \<le> pot w) (td s w))"

definition quiet_net :: "('w \<Rightarrow> nat) \<Rightarrow> ('w, 'v) net \<Rightarrow> bool" where
  "quiet_net pot N \<longleftrightarrow>
     (\<forall>k f r v w. pot (net_subscribe N k f r v w) \<le> pot w) \<and>
     (\<forall>f w. pot (net_clear N f w) \<le> pot w) \<and>
     (\<forall>f w. pot (snd (net_close N f w)) \<le> pot w)"

locale live_templ =
  fixes T :: "'env \<Rightarrow> ('w, 'v, 'e, 's, 't, 'p) templ"
    and ok :: "'env \<Rightarrow> bool"
    and ep_ok :: "'e \<Rightarrow> bool"
    and pot :: "'env \<Rightarrow> 'w \<Rightarrow> nat"
  assumes net_quiet: "ok env \<Longrightarrow> quiet_net (pot env) (net_of (T env))"
    and protocol_live: "ok env \<Longrightarrow> live_protocol (pot env) (protocol_of (T env))"
    and init_live: "ok env \<Longrightarrow>
      returns (\<lambda>(r, w'). pred_option ep_ok r) (t_init (transport_of (T env)) f tc w)"
    and read_live: "ok env \<Longrightarrow> ep_ok ep \<Longrightarrow> buffer_ok rx \<Longrightarrow>
      returns (\<lambda>(st, ep', rx', w'). ep_ok ep' \<and> extends rx rx' \<and> pot env w' \<le> pot env w \<and>
         (st = T_ok \<longrightarrow> pot env w' < pot env w)) (t_read (transport_of (T env)) ep rx w)"
    and write_live: "ok env \<Longrightarrow> ep_ok ep \<Longrightarrow> buffer_ok tx \<Longrightarrow>
      returns (\<lambda>(st, ep', tx', w'). ep_ok ep' \<and> shrinks tx tx' \<and> pot env w' \<le> pot env w)
        (t_write (transport_of (T env)) ep tx w)"
    and destroy_live: "ok env \<Longrightarrow>
      returns (\<lambda>(ep', w'). (ep_ok ep \<longrightarrow> ep_ok ep') \<and> pot env w' \<le> pot env w)
        (t_destroy (transport_of (T env)) ep w)"
    and handshake_live: "ok env \<Longrightarrow> t_handshake_step (transport_of (T env)) = Some h \<Longrightarrow> ep_ok ep \<Longrightarrow>
      returns (\<lambda>(st, ep', w'). ep_ok ep') (h ep w)"
    and shutdown_live: "ok env \<Longrightarrow> t_shutdown_step (transport_of (T env)) = Some h \<Longrightarrow> ep_ok ep \<Longrightarrow>
      returns (\<lambda>(st, ep', w'). ep_ok ep') (h ep w)"
begin

text \<open>A connection in good order, and the relation between the connections before and after a call.\<close>

definition fit :: "('w, 'e, 's, 't, 'p) conn \<Rightarrow> bool" where
  "fit c \<longleftrightarrow> buffer_ok (c_rx c) \<and> buffer_ok (c_tx c) \<and> ep_ok (c_transport c)"

definition after :: "'env \<Rightarrow> ('w, 'e, 's, 't, 'p) conn \<Rightarrow> ('w, 'e, 's, 't, 'p) conn \<Rightarrow> bool" where
  "after env c c' \<longleftrightarrow> fit c' \<and> pot env (c_world c') \<le> pot env (c_world c)"

lemma after_fit: "after env c c' \<Longrightarrow> fit c'"
  by (simp add: after_def)

lemma after_refl: "fit c \<Longrightarrow> after env c c"
  by (simp add: after_def)

lemma after_trans: "after env a b \<Longrightarrow> after env b c \<Longrightarrow> after env a c"
  by (auto simp: after_def)

lemma after_state [simp]: "after env c (c'\<lparr>c_state := s\<rparr>) = after env c c'"
  by (simp add: after_def fit_def)

lemma after_state_left [simp]: "after env (c\<lparr>c_state := s\<rparr>) c' = after env c c'"
  by (simp add: after_def)

lemma after_enter_close_transport [simp]: "after env c (enter_close_transport c') = after env c c'"
  by (simp add: enter_close_transport_def)

lemma subscribe_after:
  assumes "ok env" "fit c"
  shows "after env c (subscribe (T env) r v c)"
  using net_quiet [OF assms(1)] assms(2) by (simp add: after_def fit_def subscribe_def quiet_net_def)

lemma release_pot:
  assumes "ok env"
  shows "pot env (c_world (release (T env) c)) \<le> pot env (c_world c)"
proof -
  from net_quiet [OF assms] have cl: "pot env (net_clear (net_of (T env)) f w) \<le> pot env w"
    and cs: "pot env (snd (net_close (net_of (T env)) f w)) \<le> pot env w" for f w
    by (simp_all add: quiet_net_def)
  show ?thesis using order_trans [OF cs cl] by (simp add: release_def case_prod_unfold Let_def)
qed

lemma teardown_protocol_returns:
  assumes "ok env"
  shows "returns (\<lambda>c'. c_rx c' = c_rx c \<and> c_tx c' = c_tx c \<and> c_transport c' = c_transport c \<and>
     c_fd c' = c_fd c \<and> c_state c' = c_state c \<and>
     pot env (c_world c') \<le> pot env (c_world c)) (teardown_protocol (T env) c)"
proof (cases "p_teardown (protocol_of (T env))")
  case None
  then show ?thesis by (simp add: teardown_protocol_def)
next
  case (Some td)
  from protocol_live [OF assms] Some
  have "returns (\<lambda>(s', w'). pot env w' \<le> pot env (c_world c)) (td (c_protocol c) (c_world c))"
    by (simp add: live_protocol_def)
  with Some show ?thesis by (auto simp: teardown_protocol_def elim!: returns_mono)
qed

lemma teardown_returns:
  assumes "ok env"
  shows "returns (\<lambda>c'. c_rx c' = c_rx c \<and> c_tx c' = c_tx c \<and> c_state c' = c_state c \<and>
     (ep_ok (c_transport c) \<longrightarrow> ep_ok (c_transport c')) \<and>
     pot env (c_world c') \<le> pot env (c_world c)) (teardown (T env) c)"
proof (cases "c_fd c = -1")
  case True
  then show ?thesis by (simp add: teardown_def)
next
  case False
  obtain c1 where c1: "teardown_protocol (T env) c = Some c1"
    and eq: "c_rx c1 = c_rx c" "c_tx c1 = c_tx c" "c_transport c1 = c_transport c" "c_state c1 = c_state c"
    and le1: "pot env (c_world c1) \<le> pot env (c_world c)"
    using teardown_protocol_returns [OF assms, of c] by (auto simp: returns_def)
  obtain ep w where d: "t_destroy (transport_of (T env)) (c_transport c1) (c_world c1) = Some (ep, w)"
    and ep: "ep_ok (c_transport c1) \<longrightarrow> ep_ok ep" and le2: "pot env w \<le> pot env (c_world c1)"
    using destroy_live [OF assms, of "c_transport c1" "c_world c1"] by (auto simp: returns_def)
  have "pot env (c_world (release (T env) (c1\<lparr>c_transport := ep, c_world := w\<rparr>))) \<le> pot env (c_world c)"
    using release_pot [OF assms, of "c1\<lparr>c_transport := ep, c_world := w\<rparr>"] le1 le2 by simp
  with False c1 d eq ep show ?thesis by (simp add: teardown_def)
qed

lemma enter_error_returns:
  assumes "ok env"
  shows "returns (\<lambda>c'. c_state c' = S_error \<and> c_rx c' = c_rx c \<and> c_tx c' = c_tx c \<and> (fit c \<longrightarrow> after env c c'))
     (enter_error (T env) c)"
  unfolding enter_error_def
  by (rule returns_mono [OF teardown_returns [OF assms]]) (auto simp: after_def fit_def)

lemma enter_closed_returns:
  assumes "ok env"
  shows "returns (\<lambda>c'. c_state c' = S_closed \<and> c_rx c' = c_rx c \<and> c_tx c' = c_tx c) (enter_closed (T env) c)"
  unfolding enter_closed_def
  by (rule returns_mono [OF teardown_returns [OF assms]]) auto

lemma arm_returns:
  assumes "ok env" "fit c"
  shows "returns (\<lambda>c'. after env c c') (arm (T env) st c)"
proof -
  have "returns (after env c) (enter_error (T env) c)"
    by (rule returns_mono [OF enter_error_returns [OF assms(1)]]) (use assms(2) in auto)
  with subscribe_after [OF assms] after_refl [OF assms(2)] show ?thesis by (cases st) (simp_all add: arm_def)
qed

lemma transport_write_returns:
  assumes "ok env" "fit c"
  shows "returns (\<lambda>(b, c'). after env c c') (transport_write (T env) re_arm c)"
  using assms(2)
proof (induction "length (rbuf (c_tx c))" arbitrary: c rule: less_induct)
  case less
  note unfold = transport_write.simps [of "T env" re_arm c]
  show ?case
  proof (cases "c_fd c \<noteq> -1 \<and> rbuf (c_tx c) \<noteq> []")
    case False
    with less.prems show ?thesis
      by (auto simp: unfold after_refl subscribe_after [OF assms(1)])
  next
    case True
    obtain st ep tx w where wr: "t_write (transport_of (T env)) (c_transport c) (c_tx c) (c_world c) = Some (st, ep, tx, w)"
      and ep: "ep_ok ep" and tx: "shrinks (c_tx c) tx" and le: "pot env w \<le> pot env (c_world c)"
      using write_live [OF assms(1), of "c_transport c" "c_tx c" "c_world c"] less.prems
      by (auto simp: returns_def fit_def)
    let ?c = "c\<lparr>c_transport := ep, c_tx := tx, c_world := w\<rparr>"
    have fit: "fit ?c" using less.prems ep tx by (simp add: fit_def shrinks_def)
    have aft: "after env c ?c" using fit le by (simp add: after_def)
    have arm: "returns (after env c) (arm (T env) st' ?c)" for st'
      by (rule returns_mono [OF arm_returns [OF assms(1) fit]]) (rule after_trans [OF aft])
    have "returns (\<lambda>(b, c'). after env c c') (transport_write (T env) re_arm ?c)"
      if "length (rbuf tx) \<noteq> length (rbuf (c_tx c))"
      by (rule returns_mono [OF less.hyps [OF _ fit]])
        (use tx that aft in \<open>auto simp: shrinks_def intro: after_trans\<close>)
    with True wr arm aft show ?thesis by (auto simp: unfold Let_def)
  qed
qed

lemma call_handler_returns:
  assumes "live_handler (pot env) h" "fit c"
  shows "returns (\<lambda>(st, c'). after env c c' \<and> c_state c' = c_state c) (call_handler h c)"
proof -
  have "returns (\<lambda>(st, s', rx', tx', w'). shrinks (c_rx c) rx' \<and> extends (c_tx c) tx' \<and> pot env w' \<le> pot env (c_world c))
     (h (c_protocol c) (c_rx c) (c_tx c) (c_world c))"
    using assms by (simp add: live_handler_def fit_def)
  then show ?thesis
    using assms(2) by (auto simp: call_handler_def after_def fit_def shrinks_def extends_def elim!: returns_mono)
qed

lemma consume_shutdown_loop_returns:
  assumes "ok env" "live_handler (pot env) h"
  shows "fit c \<Longrightarrow> returns (\<lambda>(b, c'). after env c c') (consume_shutdown_loop (T env) h c)"
proof (induction "length (rbuf (c_rx c))" arbitrary: c rule: less_induct)
  case less
  note unfold = consume_shutdown_loop.simps [of "T env" h c]
  obtain st c1 where ch: "call_handler h c = Some (st, c1)" and a1: "after env c c1"
    using call_handler_returns [OF assms(2) less.prems] by (auto simp: returns_def)
  obtain b c2 where tw: "transport_write (T env) True c1 = Some (b, c2)" and a2: "after env c1 c2"
    using transport_write_returns [OF assms(1) after_fit [OF a1], of True] by (auto simp: returns_def)
  note a = after_trans [OF a1 a2]
  have err: "returns (after env c) (enter_error (T env) c1)"
    by (rule returns_mono [OF enter_error_returns [OF assms(1)]]) (use a1 in \<open>auto intro: after_trans simp: after_fit\<close>)
  have "returns (\<lambda>(b, c'). after env c c') (consume_shutdown_loop (T env) h c2)"
    if "\<not> length (rbuf (c_rx c)) \<le> length (rbuf (c_rx c2))"
    by (rule returns_mono [OF less.hyps [OF _ after_fit [OF a]]]) (use that a in \<open>auto intro: after_trans\<close>)
  with ch tw a a1 err show ?case by (cases st) (auto simp: unfold)
qed

lemma enter_close_protocol_returns:
  assumes "ok env" "fit c"
  shows "returns (after env c) (enter_close_protocol (T env) c)"
proof (cases "p_on_shutdown (protocol_of (T env))")
  case None
  with assms show ?thesis by (simp add: enter_close_protocol_def after_refl)
next
  case (Some h)
  with protocol_live [OF assms(1)] have h: "live_handler (pot env) h" by (simp add: live_protocol_def)
  have "fit (c\<lparr>c_state := S_close_protocol\<rparr>)" using assms(2) by (simp add: fit_def)
  from consume_shutdown_loop_returns [OF assms(1) h this] Some show ?thesis
    by (auto simp: enter_close_protocol_def enter_close_protocol_loop_eq elim!: returns_mono)
qed

lemma bind_protocol_returns:
  assumes "ok env" "live_handler (pot env) h" "fit c"
  shows "returns (after env c) (bind_protocol (T env) h c)"
proof -
  obtain st c1 where ch: "call_handler h c = Some (st, c1)" and a1: "after env c c1"
    using call_handler_returns [OF assms(2,3)] by (auto simp: returns_def)
  obtain b c2 where tw: "transport_write (T env) True c1 = Some (b, c2)" and a2: "after env c1 c2"
    using transport_write_returns [OF assms(1) after_fit [OF a1], of True] by (auto simp: returns_def)
  note a = after_trans [OF a1 a2]
  obtain b' c3 where tw': "transport_write (T env) True c2 = Some (b', c3)" and a3: "after env c2 c3"
    using transport_write_returns [OF assms(1) after_fit [OF a], of True] by (auto simp: returns_def)
  have err: "returns (after env c) (enter_error (T env) c1)"
    by (rule returns_mono [OF enter_error_returns [OF assms(1)]]) (use a1 in \<open>auto intro: after_trans simp: after_fit\<close>)
  have "returns (after env c) (enter_close_protocol (T env) c2)"
    by (rule returns_mono [OF enter_close_protocol_returns [OF assms(1) after_fit [OF a]]]) (rule after_trans [OF a])
  with ch tw tw' a err after_trans [OF a a3] show ?thesis
    by (cases st) (auto simp: bind_protocol_def split: option.splits)
qed

lemma enter_Protocol_returns:
  assumes "ok env" "fit c"
  shows "returns (after env c) (enter_Protocol (T env) c)"
proof -
  let ?c = "c\<lparr>c_state := S_protocol\<rparr>"
  have fit: "fit ?c" using assms(2) by (simp add: fit_def)
  have "returns (\<lambda>(b, c'). after env c c') (transport_write (T env) True ?c)"
    by (rule returns_mono [OF transport_write_returns [OF assms(1) fit]]) auto
  moreover have "returns (after env c) (bind_protocol (T env) h ?c)" if "p_on_connect (protocol_of (T env)) = Some h" for h
  proof (rule returns_mono [OF bind_protocol_returns [OF assms(1) _ fit]])
    show "live_handler (pot env) h" using protocol_live [OF assms(1)] that by (simp add: live_protocol_def)
  qed simp
  ultimately show ?thesis by (auto simp: enter_Protocol_def case_prod_unfold Let_def split: option.splits)
qed

lemma protocol_consume_returns:
  assumes "ok env"
  shows "fit c \<Longrightarrow> returns (after env c) (protocol_consume (T env) c)"
proof (induction "length (rbuf (c_rx c))" arbitrary: c rule: less_induct)
  case less
  note unfold = protocol_consume.simps [of "T env" c]
  have h: "live_handler (pot env) (p_on_data (protocol_of (T env)))"
    using protocol_live [OF assms] by (simp add: live_protocol_def)
  obtain c1 where b: "bind_protocol (T env) (p_on_data (protocol_of (T env))) c = Some c1" and a: "after env c c1"
    using bind_protocol_returns [OF assms h less.prems] by (auto simp: returns_def)
  have "returns (after env c) (protocol_consume (T env) c1)" if "\<not> length (rbuf (c_rx c)) \<le> length (rbuf (c_rx c1))"
    by (rule returns_mono [OF less.hyps [OF _ after_fit [OF a]]]) (use that a in \<open>auto intro: after_trans\<close>)
  with b a after_refl [OF less.prems] show ?case by (simp add: unfold)
qed

lemma transport_read_returns:
  assumes "ok env"
    and consume: "\<And>c. fit c \<Longrightarrow> returns (\<lambda>(b, c'). after env c c') (consume c)"
    and on_close: "\<And>c. fit c \<Longrightarrow> after env c (on_close c)"
  shows "fit c \<Longrightarrow> returns (after env c) (transport_read (T env) consume on_close c)"
proof (induction "pot env (c_world c)" arbitrary: c rule: less_induct)
  case less
  note unfold = transport_read.simps [of "T env" consume on_close c]
  have err: "returns (after env c) (enter_error (T env) c')" if "after env c c'" for c'
    by (rule returns_mono [OF enter_error_returns [OF assms(1)]])
      (use that in \<open>auto intro: after_trans simp: after_fit\<close>)
  obtain st ep rx w where rd: "t_read (transport_of (T env)) (c_transport c) (c_rx c) (c_world c) = Some (st, ep, rx, w)"
    and ep: "ep_ok ep" and rx: "extends (c_rx c) rx" and le: "pot env w \<le> pot env (c_world c)"
    and lt: "st = T_ok \<longrightarrow> pot env w < pot env (c_world c)"
    using read_live [OF assms(1), of "c_transport c" "c_rx c" "c_world c"] less.prems
    by (auto simp: returns_def fit_def)
  let ?c = "c\<lparr>c_transport := ep, c_rx := rx, c_world := w\<rparr>"
  have fit: "fit ?c" using less.prems ep rx by (simp add: fit_def extends_def)
  obtain b c1 where m: "(if length (rbuf rx) \<noteq> length (rbuf (c_rx c)) then consume ?c else Some (True, ?c)) = Some (b, c1)"
    and a1: "after env ?c c1"
    using consume [OF fit] after_refl [OF fit] by (cases "length (rbuf rx) = length (rbuf (c_rx c))") (auto simp: returns_def)
  have a: "after env c c1" using a1 le by (simp add: after_def)
  have "returns (after env c) (transport_read (T env) consume on_close c1)" if "st = T_ok"
    by (rule returns_mono [OF less.hyps [OF _ after_fit [OF a]]])
      (use that lt a1 a in \<open>auto simp: after_def\<close>)
  moreover have "returns (after env c) (arm (T env) st' c1)" for st'
    by (rule returns_mono [OF arm_returns [OF assms(1) after_fit [OF a]]]) (rule after_trans [OF a])
  moreover have "after env c (on_close c1)" using on_close [OF after_fit [OF a]] by (rule after_trans [OF a])
  ultimately show ?case
    using err [OF a] err [OF after_refl [OF less.prems]] a rd m by (cases st) (simp_all add: unfold Let_def)
qed

lemma consume_protocol_returns:
  "ok env \<Longrightarrow> fit c \<Longrightarrow> returns (\<lambda>(b, c'). after env c c') (consume_protocol (T env) c)"
  by (simp add: consume_protocol_def protocol_consume_returns)

lemma consume_shutdown_returns:
  assumes "ok env" "fit c"
  shows "returns (\<lambda>(b, c'). after env c c') (consume_shutdown (T env) c)"
  using protocol_live [OF assms(1)] consume_shutdown_loop_returns [OF assms(1) _ assms(2)] after_refl [OF assms(2)]
  by (auto simp: consume_shutdown_def live_protocol_def split: option.splits)

lemma tail_write_returns:
  assumes "ok env" "returns (after env c) m"
  shows "returns fit (m \<bind> (\<lambda>c. if b then transport_write (T env) True c \<bind> (\<lambda>(_, c). Some c) else Some c))"
proof -
  obtain c1 where c1: "m = Some c1" "fit c1" using assms(2) by (auto simp: returns_def after_fit)
  have "returns (\<lambda>(b, c'). fit c') (transport_write (T env) True c1)"
    by (rule returns_mono [OF transport_write_returns [OF assms(1) c1(2)]]) (auto simp: after_fit)
  with c1 show ?thesis by (simp add: case_prod_unfold)
qed

lemma step_Protocol_returns:
  assumes "ok env" "fit c"
  shows "returns fit (step_Protocol (T env) ev c)"
  unfolding step_Protocol_def
  by (rule tail_write_returns [OF assms(1)])
    (use assms in \<open>auto intro!: transport_read_returns consume_protocol_returns simp: after_refl\<close>)

lemma step_close_protocol_returns:
  assumes "ok env" "fit c"
  shows "returns fit (step_close_protocol (T env) ev c)"
  unfolding step_close_protocol_def
  by (rule tail_write_returns [OF assms(1)])
    (use assms in \<open>auto intro!: transport_read_returns consume_shutdown_returns simp: after_refl\<close>)

lemma step_drain_protocol_returns:
  assumes "ok env" "fit c"
  shows "returns fit (step_drain_protocol (T env) ev c)"
proof -
  have rd: "returns (after env c) (transport_read (T env) (\<lambda>c. Some (True, c)) (\<lambda>c. c) c)"
    by (rule transport_read_returns [OF assms(1) _ _ assms(2)]) (simp_all add: after_refl)
  have clr: "fit (c1\<lparr>c_rx := clear (c_rx c1)\<rparr>)" if "after env c c1" for c1
    using that by (auto simp: after_def fit_def buffer_ok_def)
  have wr: "returns fit (transport_write (T env) False c1 \<bind>
      (\<lambda>(flushed, c). Some (if flushed then enter_close_transport c else c)))" if "fit c1" for c1
  proof -
    have "returns (\<lambda>(b, c'). fit c') (transport_write (T env) False c1)"
      by (rule returns_mono [OF transport_write_returns [OF assms(1) that]]) (auto simp: after_fit)
    then show ?thesis by (auto simp: case_prod_unfold enter_close_transport_def fit_def elim!: returns_mono)
  qed
  have "returns fit (if (case ev of None \<Rightarrow> False | Some ev \<Rightarrow> net_ev_readable (net_of (T env)) ev) then do {
            c \<leftarrow> transport_read (T env) (\<lambda>c. Some (True, c)) (\<lambda>c. c) c;
            Some (c\<lparr>c_rx := clear (c_rx c)\<rparr>)
          } else Some c)"
    using returns_mono [OF rd clr] assms(2) by simp
  then show ?thesis unfolding step_drain_protocol_def returns_simps(3) [of _ _ "\<lambda>c. _ c \<bind> _"]
    by (rule returns_mono) (rule wr)
qed

text \<open>What holds of a connection between events: its endpoint is in order once it is connected.\<close>

definition ready :: "('w, 'e, 's, 't, 'p) conn \<Rightarrow> bool" where
  "ready c \<longleftrightarrow> buffer_ok (c_rx c) \<and> buffer_ok (c_tx c) \<and>
     (c_state c \<in> {S_uninitialized, S_in_progress, S_closed, S_error} \<or> ep_ok (c_transport c))"

lemma fit_ready: "fit c \<Longrightarrow> ready c"
  by (simp add: fit_def ready_def)

lemma after_ready: "after env c c' \<Longrightarrow> ready c'"
  by (simp add: fit_ready after_fit)

lemma returns_ready: "returns fit m \<Longrightarrow> returns ready m" "returns (after env c) m \<Longrightarrow> returns ready m"
  by (erule returns_mono, simp add: fit_ready after_ready)+

lemma enter_error_ready:
  "ok env \<Longrightarrow> buffer_ok (c_rx c) \<Longrightarrow> buffer_ok (c_tx c) \<Longrightarrow> returns ready (enter_error (T env) c)"
  by (rule returns_mono [OF enter_error_returns]) (auto simp: ready_def)

lemma enter_closed_ready:
  "ok env \<Longrightarrow> buffer_ok (c_rx c) \<Longrightarrow> buffer_ok (c_tx c) \<Longrightarrow> returns ready (enter_closed (T env) c)"
  by (rule returns_mono [OF enter_closed_returns]) (auto simp: ready_def)

lemma enter_connected_returns:
  assumes "ok env" "buffer_ok (c_rx c)" "buffer_ok (c_tx c)"
  shows "returns ready (enter_connected (T env) c)"
proof -
  obtain r w where init: "t_init (transport_of (T env)) (c_fd c) (c_transport_config c) (c_world c) = Some (r, w)"
    and r: "pred_option ep_ok r"
    using init_live [OF assms(1), of "c_fd c" "c_transport_config c" "c_world c"] by (auto simp: returns_def)
  show ?thesis
  proof (cases r)
    case None
    have "returns ready (teardown_protocol (T env) (c\<lparr>c_world := w, c_state := S_error\<rparr>) \<bind> (\<lambda>c. Some (release (T env) c)))"
      unfolding returns_simps
      by (rule returns_mono [OF teardown_protocol_returns [OF assms(1)]]) (use assms in \<open>auto simp: ready_def\<close>)
    with None init assms show ?thesis by (simp add: enter_connected_def Let_def ready_def)
  next
    case (Some ep)
    let ?c = "c\<lparr>c_world := w, c_transport := ep\<rparr>"
    have fit: "fit ?c" using Some r assms by (simp add: fit_def)
    have "returns ready (enter_Protocol (T env) (subscribe (T env) True False ?c))"
      using enter_Protocol_returns [OF assms(1) after_fit [OF subscribe_after [OF assms(1) fit]]]
      by (rule returns_ready)
    moreover have "ready (?c\<lparr>c_state := S_transport\<rparr>)" using fit by (simp add: ready_def fit_def)
    ultimately show ?thesis using Some init by (simp add: enter_connected_def Let_def split: option.splits)
  qed
qed

lemma step_in_progress_returns:
  assumes "ok env" "ready c" "c_state c = S_in_progress"
  shows "returns ready (step_in_progress (T env) ev c)"
proof -
  have bufs: "buffer_ok (c_rx c)" "buffer_ok (c_tx c)" using assms(2) by (auto simp: ready_def)
  then show ?thesis
    using assms(2) enter_error_ready [OF assms(1)] enter_connected_returns [OF assms(1)]
    by (simp add: step_in_progress_def case_prod_unfold Let_def)
qed

lemma step_Transport_returns:
  assumes "ok env" "fit c"
  shows "returns ready (step_Transport (T env) c)"
proof (cases "t_handshake_step (transport_of (T env))")
  case None
  with assms(2) show ?thesis by (simp add: step_Transport_def fit_ready)
next
  case (Some h)
  obtain st ep w where hs: "h (c_transport c) (c_world c) = Some (st, ep, w)" and ep: "ep_ok ep"
    using handshake_live [OF assms(1) Some, of "c_transport c" "c_world c"] assms(2)
    by (auto simp: returns_def fit_def)
  let ?c = "c\<lparr>c_transport := ep, c_world := w\<rparr>"
  have fit: "fit ?c" using assms(2) ep by (simp add: fit_def)
  note r = returns_ready(2) [OF enter_Protocol_returns [OF assms(1) fit]]
    returns_ready(2) [OF arm_returns [OF assms(1) fit]] enter_error_ready [OF assms(1), of ?c]
  then show ?thesis using Some hs fit by (simp add: step_Transport_def Let_def fit_def)
qed

lemma step_close_transport_returns:
  assumes "ok env" "fit c"
  shows "returns ready (step_close_transport (T env) c)"
proof (cases "t_shutdown_step (transport_of (T env))")
  case None
  with enter_closed_ready [OF assms(1)] assms(2) show ?thesis by (simp add: step_close_transport_def fit_def)
next
  case (Some h)
  obtain st ep w where hs: "h (c_transport c) (c_world c) = Some (st, ep, w)" and ep: "ep_ok ep"
    using shutdown_live [OF assms(1) Some, of "c_transport c" "c_world c"] assms(2)
    by (auto simp: returns_def fit_def)
  let ?c = "c\<lparr>c_transport := ep, c_world := w\<rparr>"
  have fit: "fit ?c" using assms(2) ep by (simp add: fit_def)
  note r = enter_closed_ready [OF assms(1), of ?c]
    returns_ready(2) [OF arm_returns [OF assms(1) fit]] enter_error_ready [OF assms(1), of ?c]
  then show ?thesis using Some hs fit by (cases st) (simp_all add: step_close_transport_def Let_def fit_def)
qed

lemma dispatch_returns:
  assumes "ok env" "ready c" "c_state c \<noteq> S_uninitialized"
  shows "returns (\<lambda>(b, c'). ready c') (dispatch (T env) ev c)"
proof -
  have fit: "c_state c \<in> {S_transport, S_protocol, S_close_protocol, S_drain_protocol, S_close_transport} \<Longrightarrow> fit c"
    using assms(2) by (auto simp: ready_def fit_def)
  show ?thesis
    using assms fit step_in_progress_returns [OF assms(1)] step_Transport_returns [OF assms(1)]
      returns_ready(1) [OF step_Protocol_returns [OF assms(1)]]
      returns_ready(1) [OF step_close_protocol_returns [OF assms(1)]]
      returns_ready(1) [OF step_drain_protocol_returns [OF assms(1)]]
      step_close_transport_returns [OF assms(1)]
    by (cases "c_state c") (simp_all add: dispatch_def split: option.split)
qed

definition live :: "('w, 'e, 's, 't, 'p) conn \<Rightarrow> bool" where
  "live c \<longleftrightarrow> ready c \<and> c_state c \<noteq> S_uninitialized"

lemma steps_returns:
  assumes "ok env"
  shows "live c \<Longrightarrow> step_pre (T env) c \<Longrightarrow> returns live (steps (T env) ev c)"
proof (induction "7 - rank (c_state c)" arbitrary: c rule: less_induct)
  case less
  obtain b c1 where d: "dispatch (T env) ev c = Some (b, c1)" and r: "ready c1"
    using dispatch_returns [OF assms, of c ev] less.prems(1) by (auto simp: returns_def live_def)
  from ensuresD [OF dispatch_spec [OF less.prems(2)] d] have post: "step_post (T env) c b c1" by simp
  then have "c_state c1 = c_state c \<or> c_state c1 \<in> later (c_state c)" by (simp add: step_post_def)
  then have l: "live c1" using r less.prems(1) later_rank by (auto simp: live_def)
  have "returns live (steps (T env) ev c1)" if "c_state c1 \<noteq> c_state c"
    by (rule less.hyps [OF _ l]) (use that post later_rank [of "c_state c1" "c_state c"] in \<open>auto simp: step_post_def\<close>)
  with d l show ?case by (subst steps.simps) simp
qed

lemma enter_uninitialized_returns:
  assumes "ok env" "replay (c_calls c) = Some (-1)" "buffer_ok (c_rx c)" "buffer_ok (c_tx c)"
  shows "returns live (enter_uninitialized (T env) c)"
proof -
  obtain result l w where d: "dial (net_of (T env)) (resolver_of (T env)) (c_host c) (c_port c) (c_calls c) (c_world c) = (result, l, w)"
    by (metis surj_pair)
  note dl = dial_log [OF d assms(2)]
  let ?c = "c\<lparr>c_state := S_uninitialized, c_rx := clear (c_rx c), c_tx := clear (c_tx c), c_calls := l, c_world := w, c_fd := dr_fd result\<rparr>"
  have bufs: "buffer_ok (clear (c_rx c))" "buffer_ok (clear (c_tx c))"
    using assms(3,4) by (simp_all add: buffer_ok_def)
  have "returns live (enter_connected (T env) ?c \<bind> steps (T env) None)" if fd: "dr_fd result \<noteq> -1"
  proof -
    have inv: "conn_inv ?c" using dl by (simp add: conn_inv_def conn_done_def fd_states_def)
    obtain c1 where c1: "enter_connected (T env) ?c = Some c1" and r: "ready c1"
      using enter_connected_returns [OF assms(1), of ?c] bufs by (auto simp: returns_def)
    from ensuresD [OF enter_connected_good [OF inv] c1] fd have g: "good (later S_in_progress) c1"
      and hs: "c_state c1 = S_transport \<longrightarrow> t_handshake_step (transport_of (T env)) \<noteq> None" by simp_all
    from goodD(3) [OF g] r have "live c1" by (auto simp: live_def)
    moreover have "step_pre (T env) c1" by (rule good_step_pre [OF g _ hs]) simp
    ultimately show ?thesis using steps_returns [OF assms(1)] c1 by simp
  qed
  then show ?thesis
    using bufs by (auto simp: enter_uninitialized_def d Let_def live_def ready_def simp del: returns_simps(3))
qed

lemma handle_event_returns:
  "ok env \<Longrightarrow> live c \<Longrightarrow> conn_ok (T env) c \<Longrightarrow> returns live (handle_event (T env) ev c)"
  unfolding handle_event_def by (rule steps_returns) (simp_all add: conn_ok_step_pre)

lemma restart_returns:
  assumes "ok env" "live c" "conn_ok (T env) c"
  shows "returns live (restart (T env) c)"
proof (cases "conn_done c")
  case False
  with assms(2) show ?thesis by (simp add: restart_def)
next
  case True
  with assms(3) have "c_fd c = -1" and "replay (c_calls c) = Some (-1)"
    by (auto simp: conn_ok_def conn_inv_def)
  with True assms(1,2) enter_uninitialized_returns [OF assms(1)] show ?thesis
    by (simp add: restart_def teardown_def live_def ready_def)
qed

lemma heartbeat_returns:
  assumes "ok env" "live c" "conn_ok (T env) c"
  shows "returns live (heartbeat (T env) c)"
proof (cases "c_state c = S_protocol \<and> p_heartbeat (protocol_of (T env)) \<noteq> None")
  case False
  with assms(2) show ?thesis by (auto simp: heartbeat_def split: option.split)
next
  case True
  then obtain hb where hb: "p_heartbeat (protocol_of (T env)) = Some hb" and st: "c_state c = S_protocol" by auto
  have fit: "fit c" using assms(2) st by (simp add: live_def ready_def fit_def)
  have "returns (\<lambda>(s', tx', w'). extends (c_tx c) tx' \<and> pot env w' \<le> pot env (c_world c))
      (hb (c_protocol c) (c_tx c) (c_world c))"
    using protocol_live [OF assms(1)] fit hb by (simp add: live_protocol_def fit_def)
  then obtain s tx w where h: "hb (c_protocol c) (c_tx c) (c_world c) = Some (s, tx, w)" and tx: "extends (c_tx c) tx"
    by (auto simp: returns_def)
  let ?c = "c\<lparr>c_protocol := s, c_tx := tx, c_world := w\<rparr>"
  have "fit ?c" using fit tx by (simp add: fit_def extends_def)
  then obtain b c1 where tw: "transport_write (T env) True ?c = Some (b, c1)" and a: "after env ?c c1"
    using transport_write_returns [OF assms(1), of ?c True] by (auto simp: returns_def)
  have "conn_inv ?c" using assms(3) by (simp add: conn_ok_def)
  from ensuresD [OF transport_write_good [OF this] tw] st have "c_state c1 \<noteq> S_uninitialized"
    by (auto dest: goodD)
  then have "live c1" using after_ready [OF a] by (simp add: live_def)
  with hb st h tw show ?thesis by (simp add: heartbeat_def)
qed

lemma stop_switch_returns:
  assumes "ok env" "live c"
  shows "returns ready (stop_switch (T env) c)"
proof -
  have bufs: "buffer_ok (c_rx c)" "buffer_ok (c_tx c)" using assms(2) by (auto simp: live_def ready_def)
  have fit: "c_state c \<in> {S_transport, S_protocol} \<Longrightarrow> fit c"
    using assms(2) by (auto simp: live_def ready_def fit_def)
  have "returns ready (enter_close_protocol (T env) c)" if "c_state c = S_protocol"
    using enter_close_protocol_returns [OF assms(1) fit] that by (intro returns_ready(2)) auto
  moreover have "ready (enter_close_transport c)" if "c_state c = S_transport"
    using fit that by (simp add: enter_close_transport_def ready_def fit_def)
  ultimately show ?thesis
    using assms(2) enter_closed_ready [OF assms(1) bufs]
    by (cases "c_state c") (simp_all add: stop_switch_def live_def)
qed

lemma stop_returns:
  assumes "ok env" "live c" "conn_ok (T env) c"
  shows "returns live (stop (T env) c)"
proof -
  obtain c1 where c1: "stop_switch (T env) c = Some c1" and r: "ready c1"
    using stop_switch_returns [OF assms(1,2)] by (auto simp: returns_def)
  from ensuresD [OF stop_switch_spec [OF assms(3)] c1] assms(2)
  have "step_pre (T env) c1" and "c_state c1 \<noteq> S_uninitialized" by (auto simp: live_def)
  then have "returns live (steps (T env) None c1)"
    using r by (intro steps_returns [OF assms(1)]) (simp_all add: live_def)
  with c1 show ?thesis by (simp add: stop_def)
qed

lemma lifecycle_live:
  assumes "ok env"
  shows "lifecycle (T env) c \<Longrightarrow> live c"
proof (induction rule: lifecycle.induct)
  case (life_attach rx_cap tx_cap cookie host port tc pc w c)
  let ?c = "(Connection (T env) rx_cap tx_cap host port tc pc w)\<lparr>c_cookie := cookie\<rparr>"
  have "returns live (enter_uninitialized (T env) ?c)"
    by (rule enter_uninitialized_returns [OF assms])
      (use life_attach.hyps in \<open>simp_all add: Connection_def buffer_ok_def\<close>)
  with life_attach.hyps(3) show ?case by (simp add: attach_def Connection_def)
next
  case (life_event c ev c')
  from handle_event_returns [OF assms life_event.IH lifecycle_ok [OF life_event.hyps(1)], of ev] life_event.hyps(2)
  show ?case by simp
next
  case (life_heartbeat c c')
  from heartbeat_returns [OF assms life_heartbeat.IH lifecycle_ok [OF life_heartbeat.hyps(1)]] life_heartbeat.hyps(2)
  show ?case by simp
next
  case (life_restart c c')
  from restart_returns [OF assms life_restart.IH lifecycle_ok [OF life_restart.hyps(1)]] life_restart.hyps(2)
  show ?case by simp
next
  case (life_stop c c')
  from stop_returns [OF assms life_stop.IH lifecycle_ok [OF life_stop.hyps(1)]] life_stop.hyps(2)
  show ?case by simp
next
  case (life_world c w)
  then show ?case by (auto simp: live_def ready_def)
qed

lemma operations_return:
  assumes "ok env" "lifecycle (T env) c"
  shows "(\<exists>c'. handle_event (T env) ev c = Some c') \<and> (\<exists>c'. heartbeat (T env) c = Some c') \<and>
     (\<exists>c'. restart (T env) c = Some c') \<and> (\<exists>c'. stop (T env) c = Some c')"
proof -
  note l = lifecycle_live [OF assms] lifecycle_ok [OF assms(2)]
  note handle_event_returns [OF assms(1) l, of ev] heartbeat_returns [OF assms(1) l]
    restart_returns [OF assms(1) l] stop_returns [OF assms(1) l]
  then show ?thesis unfolding returns_def by blast
qed

end

section \<open>The plain transport over a live backend\<close>

text \<open>
  A live backend: \<open>read\<close> and \<open>write\<close> behave as documented, the potential decreases with
  every read that delivers and with every call that is interrupted, and no call increases it.
\<close>

definition live_net :: "('w \<Rightarrow> nat) \<Rightarrow> ('w, 'v) net \<Rightarrow> bool" where
  "live_net pot N \<longleftrightarrow> net_wf N \<and> quiet_net pot N \<and>
     (\<forall>f n w len e bs w'. net_read N f n w = ((len, e, bs), w') \<longrightarrow>
        pot w' \<le> pot w \<and> (0 < len \<or> len < 0 \<and> e = EINTR \<longrightarrow> pot w' < pot w)) \<and>
     (\<forall>f bs w len e w'. net_write N f bs w = ((len, e), w') \<longrightarrow>
        pot w' \<le> pot w \<and> (len < 0 \<and> e = EINTR \<longrightarrow> pot w' < pot w))"

lemma live_net_read:
  "live_net pot N \<Longrightarrow> net_read N f n w = ((len, e, bs), w') \<Longrightarrow>
     pot w' \<le> pot w \<and> (0 < len \<or> len < 0 \<and> e = EINTR \<longrightarrow> pot w' < pot w)"
  unfolding live_net_def by blast

lemma live_net_write:
  "live_net pot N \<Longrightarrow> net_write N f bs w = ((len, e), w') \<Longrightarrow>
     pot w' \<le> pot w \<and> (len < 0 \<and> e = EINTR \<longrightarrow> pot w' < pot w)"
  unfolding live_net_def by blast

lemma plain_read_returns:
  assumes "live_net pot N" "buffer_ok rx"
  shows "returns (\<lambda>(st, ep', rx', w'). ep' = Some f \<and> pot w' \<le> pot w \<and> (st = T_ok \<longrightarrow> pot w' < pot w))
     (plain_read N (Some f) rx w)"
proof (induction "pot w" arbitrary: w rule: less_induct)
  case less
  note unfold = plain_read.simps [of N "Some f" rx w]
  obtain len e bs w1 where rd: "net_read N f (wbuf_size rx) w = ((len, e, bs), w1)" by (metis surj_pair)
  note n = live_net_read [OF assms(1) rd]
  have "net_wf N" using assms(1) by (simp add: live_net_def)
  from net_wf_read [OF this rd] have bs: "0 < len \<Longrightarrow> length bs \<le> wbuf_size rx" by auto
  have "returns (\<lambda>(st, ep', rx', w'). ep' = Some f \<and> pot w' \<le> pot w \<and> (st = T_ok \<longrightarrow> pot w' < pot w))
      (plain_read N (Some f) rx w1)" if "len < 0" "e = EINTR"
    by (rule returns_mono [OF less.hyps]) (use n that in auto)
  with rd n bs show ?case by (auto simp: unfold poke_def)
qed

lemma plain_write_returns:
  assumes "live_net pot N" "buffer_ok tx"
  shows "returns (\<lambda>(st, ep', tx', w'). ep' = Some f \<and> pot w' \<le> pot w) (plain_write N (Some f) tx w)"
proof (induction "pot w" arbitrary: w rule: less_induct)
  case less
  note unfold = plain_write.simps [of N "Some f" tx w]
  obtain n e w1 where wr: "net_write N f (rbuf tx) w = ((n, e), w1)" by (metis surj_pair)
  note p = live_net_write [OF assms(1) wr]
  have "net_wf N" using assms(1) by (simp add: live_net_def)
  from net_wf_write [OF this wr] have n: "-1 \<le> n" "n \<le> int (length (rbuf tx))" by auto
  have "length (rbuf tx) < 2 ^ 31" using rbuf_le_cap [of tx] assms(2) by (auto simp: buffer_ok_def)
  with n have i: "to_int32 n = n" by (simp add: to_int32_small)
  have "returns (\<lambda>(st, ep', tx', w'). ep' = Some f \<and> pot w' \<le> pot w) (plain_write N (Some f) tx w1)"
    if "n < 0" "e = EINTR"
    by (rule returns_mono [OF less.hyps]) (use p that in auto)
  with wr p i show ?case by (auto simp: unfold Let_def)
qed

lemma plain_read_live:
  assumes "live_net pot N" "buffer_ok rx" "ep \<noteq> None"
  shows "returns (\<lambda>(st, ep', rx', w'). ep' \<noteq> None \<and> extends rx rx' \<and> pot w' \<le> pot w \<and> (st = T_ok \<longrightarrow> pot w' < pot w))
     (plain_read N ep rx w)"
proof -
  from assms(3) obtain f where ep: "ep = Some f" by auto
  obtain st ep' rx' w' where r: "plain_read N ep rx w = Some (st, ep', rx', w')"
    and p: "pot w' \<le> pot w" "st = T_ok \<longrightarrow> pot w' < pot w"
    using plain_read_returns [OF assms(1,2), of f w] by (auto simp: returns_def ep)
  have "net_wf N" using assms(1) by (simp add: live_net_def)
  from plain_read_spec [OF this assms(2) r] p ep r show ?thesis by simp
qed

lemma plain_write_live:
  assumes "live_net pot N" "buffer_ok tx" "ep \<noteq> None"
  shows "returns (\<lambda>(st, ep', tx', w'). ep' \<noteq> None \<and> shrinks tx tx' \<and> pot w' \<le> pot w) (plain_write N ep tx w)"
proof -
  from assms(3) obtain f where ep: "ep = Some f" by auto
  obtain st ep' tx' w' where r: "plain_write N ep tx w = Some (st, ep', tx', w')" and p: "pot w' \<le> pot w"
    using plain_write_returns [OF assms(1,2), of f w] by (auto simp: returns_def ep)
  have "net_wf N" using assms(1) by (simp add: live_net_def)
  from plain_write_spec [OF this assms(2) r] p ep r show ?thesis by simp
qed

interpretation live_plain: live_templ
    "\<lambda>(N, R, P, pot). plain_templ N R P"
    "\<lambda>(N, R, P, pot). live_net pot N \<and> live_protocol pot P"
    "\<lambda>ep. ep \<noteq> None"
    "\<lambda>(N, R, P, pot). pot"
proof (unfold_locales, goal_cases)
  case (4 env ep rx w)
  obtain N R P pot where env: "env = (N, R, P, pot)" by (cases env)
  from 4 plain_read_live [of pot N rx ep w] show ?case by (simp add: env plain_templ_def Plain_def)
next
  case (5 env ep tx w)
  obtain N R P pot where env: "env = (N, R, P, pot)" by (cases env)
  from 5 plain_write_live [of pot N tx ep w] show ?case by (simp add: env plain_templ_def Plain_def)
qed (auto simp: plain_templ_def Plain_def live_net_def plain_init_def plain_destroy_def)

end
