(* ===== verification/Reactor.thy ===== *)
theory Reactor
  imports Connection_Live
begin

text \<open>
  \<^verbatim>\<open>include/manet/reactor.hpp\<close>: the event loop over a statically known set of connections.
  The tuple of optional connections is a list of optional connections that share one world; the
  template arguments of connection \<open>i\<close> are \<open>T i\<close> (connections with different endpoint,
  session or configuration types are embedded in sum types).  The address of connection
  \<open>i\<close> is \<open>Suc i\<close>, so no connection has the null address; dereferencing any other
  pointer is undefined.  \<open>r_stops\<close> and \<open>r_beats\<close> count the calls of \<open>Net::stop\<close> and of
  \<open>heartbeat\<close>; they are not members of the class.
\<close>

section \<open>State\<close>

record ('t, 'p) connection_config =
  cc_host :: string
  cc_port :: u16
  cc_transport_config :: 't
  cc_protocol_config :: 'p

record ('w, 'e, 's, 't, 'p) reactor =
  r_connections :: "('w, 'e, 's, 't, 'p) conn option list"
  r_stopping :: bool
  r_counter :: u64
  r_world :: 'w
  r_stops :: nat
  r_beats :: nat

definition Reactor :: "nat \<Rightarrow> 'w \<Rightarrow> ('w, 'e, 's, 't, 'p) reactor" where
  "Reactor num_connections w =
     \<lparr>r_connections = replicate num_connections None, r_stopping = False, r_counter = 0, r_world = w,
      r_stops = 0, r_beats = 0\<rparr>"

definition address_of :: "nat \<Rightarrow> ptr" where
  "address_of i = Suc i"

definition NUM_EVENTS :: "('w, 'e, 's, 't, 'p) reactor \<Rightarrow> nat" where
  "NUM_EVENTS r = length (r_connections r) + 1"

section \<open>Calls to the connections\<close>

text \<open>A call to the member function \<open>f\<close> of connection \<open>i\<close>, on the shared world.\<close>

definition on_conn ::
    "nat \<Rightarrow> (('w, 'e, 's, 't, 'p) conn \<Rightarrow> ('w, 'e, 's, 't, 'p) conn option) \<Rightarrow>
     ('w, 'e, 's, 't, 'p) reactor \<Rightarrow> ('w, 'e, 's, 't, 'p) reactor option" where
  "on_conn i f r =
     (case r_connections r ! i of
        None \<Rightarrow> Some r
      | Some c \<Rightarrow> do {
          c \<leftarrow> f (c\<lparr>c_world := r_world r\<rparr>);
          Some (r\<lparr>r_connections := (r_connections r)[i := Some c], r_world := c_world c\<rparr>)
        })"

text \<open>The fold of \<open>std::apply\<close> over the tuple, skipping the empty options.\<close>

fun each ::
    "(nat \<Rightarrow> ('w, 'e, 's, 't, 'p) conn \<Rightarrow> ('w, 'e, 's, 't, 'p) conn option) \<Rightarrow> nat list \<Rightarrow>
     ('w, 'e, 's, 't, 'p) reactor \<Rightarrow> ('w, 'e, 's, 't, 'p) reactor option" where
  "each f [] r = Some r"
| "each f (i # is) r = do { r \<leftarrow> on_conn i (f i) r; each f is r }"

definition all_done :: "('w, 'e, 's, 't, 'p) reactor \<Rightarrow> bool" where
  "all_done r \<longleftrightarrow> list_all (\<lambda>opt. case opt of None \<Rightarrow> True | Some c \<Rightarrow> conn_done c) (r_connections r)"

definition heartbeat_all ::
    "(nat \<Rightarrow> ('w, 'v, 'e, 's, 't, 'p) templ) \<Rightarrow> ('w, 'e, 's, 't, 'p) reactor \<Rightarrow> ('w, 'e, 's, 't, 'p) reactor option" where
  "heartbeat_all T r = each (\<lambda>i. heartbeat (T i)) [0..<length (r_connections r)] (r\<lparr>r_beats := Suc (r_beats r)\<rparr>)"

definition stop_all ::
    "(nat \<Rightarrow> ('w, 'v, 'e, 's, 't, 'p) templ) \<Rightarrow> ('w, 'e, 's, 't, 'p) reactor \<Rightarrow> ('w, 'e, 's, 't, 'p) reactor option" where
  "stop_all T r = each (\<lambda>i. stop (T i)) [0..<length (r_connections r)] r"

definition stop_net :: "('w, 'v) net \<Rightarrow> ('w, 'e, 's, 't, 'p) reactor \<Rightarrow> ('w, 'e, 's, 't, 'p) reactor" where
  "stop_net N r = r\<lparr>r_world := net_stop N (r_world r), r_stops := Suc (r_stops r)\<rparr>"

section \<open>Initialisation\<close>

definition init_connection ::
    "(nat \<Rightarrow> ('w, 'v, 'e, 's, 't, 'p) templ) \<Rightarrow> nat \<Rightarrow> nat \<Rightarrow> nat \<Rightarrow> ('t, 'p) connection_config \<Rightarrow>
     ('w, 'e, 's, 't, 'p) reactor \<Rightarrow> ('w, 'e, 's, 't, 'p) reactor option" where
  "init_connection T rx_cap tx_cap i config r = do {
     let conn = Connection (T i) rx_cap tx_cap (cc_host config) (cc_port config)
                  (cc_transport_config config) (cc_protocol_config config) (r_world r);
     c \<leftarrow> attach (T i) (address_of i) conn;
     Some (r\<lparr>r_connections := (r_connections r)[i := Some c], r_world := c_world c\<rparr>)
   }"

fun reactor_init ::
    "(nat \<Rightarrow> ('w, 'v, 'e, 's, 't, 'p) templ) \<Rightarrow> nat \<Rightarrow> nat \<Rightarrow> nat \<Rightarrow> ('t, 'p) connection_config list \<Rightarrow>
     ('w, 'e, 's, 't, 'p) reactor \<Rightarrow> ('w, 'e, 's, 't, 'p) reactor option" where
  "reactor_init T rx_cap tx_cap i [] r = Some r"
| "reactor_init T rx_cap tx_cap i (config # configs) r = do {
     r \<leftarrow> init_connection T rx_cap tx_cap i config r;
     reactor_init T rx_cap tx_cap (Suc i) configs r
   }"

section \<open>The event loop\<close>

text \<open>\<open>static_cast<BaseConnection *>(Net::get_user_data(ev))\<close>, which the caller dereferences.\<close>

definition deref :: "ptr \<Rightarrow> ('w, 'e, 's, 't, 'p) reactor \<Rightarrow> (nat \<times> ('w, 'e, 's, 't, 'p) conn) option" where
  "deref p r =
     (if 0 < p \<and> p \<le> length (r_connections r)
      then map_option (Pair (p - 1)) (r_connections r ! (p - 1)) else None)"

text \<open>The branch for an event of a connection, and the body of the \<open>for\<close> loop.\<close>

definition conn_event ::
    "('w, 'v) net \<Rightarrow> (nat \<Rightarrow> ('w, 'v, 'e, 's, 't, 'p) templ) \<Rightarrow> 'v \<Rightarrow> ('w, 'e, 's, 't, 'p) reactor \<Rightarrow>
     ('w, 'e, 's, 't, 'p) reactor option" where
  "conn_event N T ev r = do {
     (i, conn) \<leftarrow> deref (net_get_user_data N ev) r;
     if conn_done conn then Some r
     else do {
       r \<leftarrow> on_conn i (handle_event (T i) ev) r;
       (i, conn) \<leftarrow> deref (net_get_user_data N ev) r;
       if \<not> r_stopping r \<and> conn_closed conn then on_conn i (restart (T i)) r else Some r
     }
   }"

definition on_event ::
    "('w, 'v) net \<Rightarrow> (nat \<Rightarrow> ('w, 'v, 'e, 's, 't, 'p) templ) \<Rightarrow> 'v \<Rightarrow> ('w, 'e, 's, 't, 'p) reactor \<Rightarrow>
     ('w, 'e, 's, 't, 'p) reactor option" where
  "on_event N T ev r = do {
     let (kill, w) = net_ev_signal N ev (r_world r);
     let r = r\<lparr>r_world := w\<rparr>;
     r \<leftarrow> (if kill then
             (if \<not> r_stopping r then stop_all T (r\<lparr>r_stopping := True\<rparr>) else Some r)
           else conn_event N T ev r);
     Some (if r_stopping r \<and> all_done r then stop_net N r else r)
   }"

fun on_events ::
    "('w, 'v) net \<Rightarrow> (nat \<Rightarrow> ('w, 'v, 'e, 's, 't, 'p) templ) \<Rightarrow> 'v list \<Rightarrow> ('w, 'e, 's, 't, 'p) reactor \<Rightarrow>
     ('w, 'e, 's, 't, 'p) reactor option" where
  "on_events N T [] r = Some r"
| "on_events N T (ev # evs) r = do { r \<leftarrow> on_event N T ev r; on_events N T evs r }"

text \<open>
  One turn of the loop.  \<open>Net::poll\<close> returns the number of events and fills the array;
  entries behind the reported number are not read.
\<close>

definition reactor_loop ::
    "('w, 'v) net \<Rightarrow> (nat \<Rightarrow> ('w, 'v, 'e, 's, 't, 'p) templ) \<Rightarrow> ('w, 'e, 's, 't, 'p) reactor \<Rightarrow>
     ('w, 'e, 's, 't, 'p) reactor option" where
  "reactor_loop N T r = do {
     let ((nevents, events), w) = net_poll N (NUM_EVENTS r) (r_world r);
     let r = r\<lparr>r_world := w\<rparr>;
     let r = (if nevents < 0 then stop_net N r else r);
     r \<leftarrow> on_events N T (take (nat nevents) events) r;
     let r = r\<lparr>r_counter := r_counter r + 1\<rparr>;
     if r_counter r AND 63 = 0 then heartbeat_all T r else Some r
   }"

text \<open>
  \<open>run\<close>: \<open>net_init\<close> and \<open>net_run\<close> are \<open>Net::init\<close> and \<open>Net::run\<close>; the former
  may throw (\<open>Inl\<close>), the latter calls the loop as often as the backend decides.  The
  handler that calls \<open>Net::stop\<close> and throws again is for a failing allocation in the constructor of a
  connection, as \<open>attach\<close> does not throw; allocations do not fail in the model.
\<close>

definition reactor_run ::
    "('cfg \<Rightarrow> 'w \<Rightarrow> (string + unit) \<times> 'w) \<Rightarrow>
     ((('w, 'e, 's, 't, 'p) reactor \<Rightarrow> ('w, 'e, 's, 't, 'p) reactor option) \<Rightarrow>
      ('w, 'e, 's, 't, 'p) reactor \<Rightarrow> ('w, 'e, 's, 't, 'p) reactor option) \<Rightarrow>
     ('w, 'v) net \<Rightarrow> (nat \<Rightarrow> ('w, 'v, 'e, 's, 't, 'p) templ) \<Rightarrow> nat \<Rightarrow> nat \<Rightarrow> 'cfg \<Rightarrow>
     ('t, 'p) connection_config list \<Rightarrow> ('w, 'e, 's, 't, 'p) reactor \<Rightarrow>
     ((string + unit) \<times> ('w, 'e, 's, 't, 'p) reactor) option" where
  "reactor_run net_init net_run N T rx_cap tx_cap config configs r =
     (case net_init config (r_world r) of
        (Inl e, w) \<Rightarrow> Some (Inl e, r\<lparr>r_world := w\<rparr>)
      | (Inr _, w) \<Rightarrow> do {
          r \<leftarrow> reactor_init T rx_cap tx_cap 0 configs (r\<lparr>r_world := w\<rparr>);
          r \<leftarrow> net_run (reactor_loop N T) r;
          Some (Inr (), r)
        })"

end
