(* ===== verification/Sample_Env.thy ===== *)
theory Sample_Env
  imports Connection
begin

text \<open>
  A scripted environment on which the properties are applied to concrete connections: a backend
  whose peer's bytes are a list of chunks (an empty chunk is the end of the stream) and whose
  writes accept everything, a resolver with one address, and an echo session.  Nothing here models
  code of the repository.
\<close>

record script =
  sc_in :: "byte list list"
  sc_out :: "byte list"

record sample_event =
  se_close :: bool
  se_error :: bool
  se_read :: bool
  se_write :: bool

definition sample_read :: "fd \<Rightarrow> nat \<Rightarrow> script \<Rightarrow> (int \<times> errno \<times> byte list) \<times> script" where
  "sample_read f n w =
     (case sc_in w of
        [] \<Rightarrow> ((-1, EAGAIN, []), w)
      | bs # rest \<Rightarrow>
          if length bs \<le> n then ((int (length bs), EAGAIN, bs), w\<lparr>sc_in := rest\<rparr>)
          else ((int n, EAGAIN, take n bs), w\<lparr>sc_in := drop n bs # rest\<rparr>))"

definition sample_write :: "fd \<Rightarrow> byte list \<Rightarrow> script \<Rightarrow> (int \<times> errno) \<times> script" where
  "sample_write f bs w = ((int (length bs), EAGAIN), w\<lparr>sc_out := sc_out w @ bs\<rparr>)"

definition sample_net :: "(script, sample_event) net" where
  "sample_net =
     \<lparr>net_socket = (\<lambda>_ _ _ w. ((3, EAGAIN), w)), net_ioctl = (\<lambda>_ _ _ w. ((0, EAGAIN), w)),
      net_connect = (\<lambda>_ _ _ w. ((-1, EINPROGRESS), w)), net_close = (\<lambda>_ w. (0, w)),
      net_getsockopt = (\<lambda>_ _ _ w. ((0, 0), w)), net_read = sample_read, net_write = sample_write,
      net_stop = id, net_poll = (\<lambda>_ w. ((0, []), w)), net_ev_signal = (\<lambda>_ w. (False, w)),
      net_ev_close = se_close, net_ev_error = se_error, net_ev_readable = se_read,
      net_ev_writeable = se_write, net_get_user_data = (\<lambda>_. 1),
      net_subscribe = (\<lambda>_ _ _ _ w. w), net_clear = (\<lambda>_ w. w)\<rparr>"

definition sample_resolver :: "script resolver" where
  "sample_resolver =
     \<lparr>getaddrinfo = (\<lambda>_ _ _ w. ((0, [\<lparr>ai_family = 2, ai_socktype = 1, ai_protocol = 6, ai_addr = [], ai_addrlen = 0\<rparr>]), w)),
      freeaddrinfo = (\<lambda>_ w. w)\<rparr>"

definition echo_on_data :: "(script, unit) handler" where
  "echo_on_data s rx tx w =
     (let n = min (length (rbuf rx)) (wbuf_size tx) in
      do { tx \<leftarrow> emit (take n (rbuf rx)) tx; Some (P_ok, s, read n rx, tx, w) })"

definition Echo :: "(script, unit, unit) protocol" where
  "Echo = \<lparr>p_session = (\<lambda>_ _ _. ()), p_on_data = echo_on_data, p_on_connect = None,
     p_on_shutdown = None, p_heartbeat = None, p_teardown = None\<rparr>"

definition sample_T :: "(script, sample_event, plain_endpoint, unit, unit, unit) templ" where
  "sample_T = plain_templ sample_net sample_resolver Echo"

definition sample_new :: "byte list list \<Rightarrow> (script, plain_endpoint, unit, unit, unit) conn" where
  "sample_new bss = Connection sample_T 8 8 ''h'' 80 () () \<lparr>sc_in = bss, sc_out = []\<rparr>"

definition sample_rw :: sample_event where
  "sample_rw = \<lparr>se_close = False, se_error = False, se_read = True, se_write = True\<rparr>"

text \<open>The same backend with a connection that was reset by the peer.\<close>

definition reset_net :: "(script, sample_event) net" where
  "reset_net = sample_net\<lparr>net_read := (\<lambda>_ _ w. ((-1, Errno 104, []), w))\<rparr>"

definition reset_T :: "(script, sample_event, plain_endpoint, unit, unit, unit) templ" where
  "reset_T = plain_templ reset_net sample_resolver Echo"

end
