(* ===== verification/Connection_Props.thy ===== *)
theory Connection_Props
  imports Connection_Live Sample_Env
begin

text \<open>
  The properties of the connection state machine, with the concrete connections of
  \<open>Sample_Env\<close> they are applied to.
\<close>

section \<open>The transmit stream\<close>

text \<open>What the session's \<open>teardown\<close> and the backend must leave alone for the stream to be kept.\<close>

definition silent :: "('w \<Rightarrow> byte list) \<Rightarrow> ('w, 'v, 'e, 's, 't, 'p) templ \<Rightarrow> bool" where
  "silent sent T \<longleftrightarrow>
     (\<forall>k f r v w. sent (net_subscribe (net_of T) k f r v w) = sent w) \<and>
     (\<forall>f w. sent (net_clear (net_of T) f w) = sent w) \<and>
     (\<forall>f w. sent (snd (net_close (net_of T) f w)) = sent w) \<and>
     (case p_teardown (protocol_of T) of None \<Rightarrow> True
      | Some td \<Rightarrow> \<forall>s w s' w'. td s w = Some (s', w') \<longrightarrow> sent w' = sent w)"

context stream_transport
begin

lemma teardown_stream:
  assumes "env_ok env" "transport_of T = tr env" "silent (sent env) T"
  shows "ensures (\<lambda>c'. sent env (c_world c') = sent env (c_world c) \<and> c_tx c' = c_tx c) (teardown T c)"
proof (rule ensuresI)
  fix c' assume r: "teardown T c = Some c'"
  show "sent env (c_world c') = sent env (c_world c) \<and> c_tx c' = c_tx c"
  proof (cases "c_fd c = -1")
    case True
    with r show ?thesis by (simp add: teardown_def)
  next
    case False
    with r obtain c1 ep w where c1: "teardown_protocol T c = Some c1"
      and d: "t_destroy (tr env) (c_transport c1) (c_world c1) = Some (ep, w)"
      and c': "c' = release T (c1\<lparr>c_transport := ep, c_world := w\<rparr>)"
      by (auto simp: teardown_def defined_iff assms(2))
    have "sent env (c_world c1) = sent env (c_world c) \<and> c_tx c1 = c_tx c"
      using c1 assms(3) by (auto simp: teardown_protocol_def silent_def defined_iff split: option.splits)
    with destroy_silent [OF assms(1) d] assms(3) show ?thesis
      by (simp add: c' release_def silent_def case_prod_unfold Let_def)
  qed
qed

lemma arm_stream:
  assumes "env_ok env" "transport_of T = tr env" "silent (sent env) T"
  shows "ensures (\<lambda>c'. sent env (c_world c') = sent env (c_world c) \<and> c_tx c' = c_tx c) (arm T st c)"
proof -
  have "ensures (\<lambda>c'. sent env (c_world c') = sent env (c_world c) \<and> c_tx c' = c_tx c) (enter_error T c)"
    unfolding enter_error_def by (rule ensures_mono [OF teardown_stream [OF assms]]) simp
  with assms(3) show ?thesis by (cases st) (simp_all add: arm_def subscribe_def silent_def)
qed

lemma transport_write_stream:
  assumes env: "env_ok env" "transport_of T = tr env" "silent (sent env) T"
    and tx: "buffer_ok (c_tx c)"
  shows "ensures (\<lambda>(b, c'). sent env (c_world c') @ rbuf (c_tx c') = sent env (c_world c) @ rbuf (c_tx c)
     \<and> buffer_ok (c_tx c') \<and> (b \<longrightarrow> c_fd c' \<noteq> -1 \<longrightarrow> rbuf (c_tx c') = [])) (transport_write T re_arm c)"
proof (rule ensuresI)
  fix r assume r: "transport_write T re_arm c = Some r"
  let ?Q = "\<lambda>c r. case r of (b, c') \<Rightarrow> sent env (c_world c') @ rbuf (c_tx c') = sent env (c_world c) @ rbuf (c_tx c)
     \<and> buffer_ok (c_tx c') \<and> (b \<longrightarrow> c_fd c' \<noteq> -1 \<longrightarrow> rbuf (c_tx c') = [])"
  let ?P = "\<lambda>T' re_arm c r. T' = T \<longrightarrow> buffer_ok (c_tx c) \<longrightarrow> ?Q c r"
  show "?Q c r"
  proof (rule transport_write.raw_induct [where P = ?P, OF _ r, rule_format, OF _ refl tx], goal_cases step)
    case (step rec T' re_arm c r)
    show ?case
    proof (cases "c_fd c \<noteq> -1 \<and> rbuf (c_tx c) \<noteq> []")
      case False
      with step(2-4) env(3) show ?thesis by (auto simp: subscribe_def silent_def split: if_splits)
    next
      case True
      then obtain st ep tx w where wr: "t_write (tr env) (c_transport c) (c_tx c) (c_world c) = Some (st, ep, tx, w)"
        using step(2,3) by (auto simp: defined_iff env(2))
      let ?c = "c\<lparr>c_transport := ep, c_tx := tx, c_world := w\<rparr>"
      from write_conserves [OF env(1) step(4) wr] write_shrinks [OF env(1) step(4) wr]
      have keep: "sent env w @ rbuf tx = sent env (c_world c) @ rbuf (c_tx c)" and ok: "buffer_ok tx"
        by (simp_all add: shrinks_def)
      have arm: "?Q c (False, c')" if "arm T st' ?c = Some c'" for st' c'
        using ensuresD [OF arm_stream [OF env] that] keep ok by simp
      have "?Q c r" if "rec T re_arm ?c = Some r"
        using step(1) [OF that] keep ok by (simp split: prod.splits)
      with arm True wr step(2,3) keep ok show ?thesis
        by (auto simp: defined_iff enter_close_transport_def env(2) Let_def split: if_splits)
    qed
  qed
qed

end

lemma transport_write_plain:
  assumes "records_writes sent N" "silent sent (plain_templ N R P)" "buffer_ok (c_tx c)"
    and "transport_write (plain_templ N R P) re_arm c = Some (b, c')"
  shows "sent (c_world c') @ rbuf (c_tx c') = sent (c_world c) @ rbuf (c_tx c) \<and> buffer_ok (c_tx c')
     \<and> (b \<longrightarrow> c_fd c' \<noteq> -1 \<longrightarrow> rbuf (c_tx c') = [])"
  using ensuresD [OF plain_stream.transport_write_stream [of "(N, sent)" "plain_templ N R P"] assms(4)] assms
  by (simp add: plain_templ_def)

section \<open>Helper lemmas\<close>

lemma reaches_done: "reaches s s' \<Longrightarrow> s \<in> {S_closed, S_error} \<Longrightarrow> s' = s"
  by (induction rule: converse_rtranclp_induct) auto

lemma steps_done: "conn_done c \<Longrightarrow> steps T ev c = Some c"
  by (subst steps.simps) (auto simp: dispatch_def conn_done_def)

lemma steps_step:
  "dispatch T ev c = Some (True, c1) \<Longrightarrow> c_state c1 \<noteq> c_state c \<Longrightarrow> steps T ev c = steps T ev c1"
  by (subst steps.simps) simp

lemma steps_dispatch: "steps T ev c = Some c' \<Longrightarrow> dispatch T ev c \<noteq> None"
  by (subst (asm) steps.simps) (cases "dispatch T ev c", simp_all)

lemma enter_closed_state: "enter_closed T c = Some c' \<Longrightarrow> c_state c' = S_closed \<and> c_fd c' = -1"
  by (auto simp: enter_closed_def teardown_def teardown_protocol_def defined_iff split: if_splits option.splits)

lemma enter_error_state: "enter_error T c = Some c' \<Longrightarrow> c_state c' = S_error \<and> c_fd c' = -1"
  by (auto simp: enter_error_def teardown_def teardown_protocol_def defined_iff split: if_splits option.splits)

lemma steps_close_transport:
  assumes "c_state c = S_close_transport" "t_shutdown_step (transport_of T) = None" "steps T ev c = Some c'"
  shows "c_state c' = S_closed \<and> c_fd c' = -1"
proof -
  from assms obtain c1 where c1: "enter_closed T c = Some c1" and s: "steps T ev c1 = Some c'"
    by (subst (asm) steps.simps)
      (auto simp: dispatch_def step_close_transport_def defined_iff dest: enter_closed_state split: if_splits)
  from enter_closed_state [OF c1] s steps_done [of c1 T ev] show ?thesis by (simp add: conn_done_def)
qed

lemma stop_plain:
  assumes "t_shutdown_step (transport_of T) = None" "p_on_shutdown (protocol_of T) = None"
    and "c_state c \<in> {S_uninitialized, S_in_progress, S_transport, S_protocol, S_close_transport}"
    and "stop T c = Some c'"
  shows "c_state c' = S_closed \<and> c_fd c' = -1"
proof -
  from assms(4) obtain c1 where c1: "stop_switch T c = Some c1" and s: "steps T None c1 = Some c'"
    by (auto simp: stop_def defined_iff)
  have "c_state c1 = S_closed \<and> c_fd c1 = -1 \<or> c_state c1 = S_close_transport"
    using c1 assms(2,3)
    by (auto simp: stop_switch_def enter_close_protocol_def enter_close_transport_def dest: enter_closed_state)
  then show ?thesis
    using s steps_done [of c1 T None] steps_close_transport [OF _ assms(1) s] by (auto simp: conn_done_def)
qed

text \<open>A read error while draining: the connection is torn down, then reported as closed.\<close>

lemma drain_error:
  assumes "c_state c = S_drain_protocol" "net_ev_readable (net_of T) ev" "\<not> full (c_rx c)"
    and "t_read (transport_of T) (c_transport c) (c_rx c) (c_world c) = Some (T_error, ep, c_rx c, w)"
    and "t_shutdown_step (transport_of T) = None"
    and "handle_event T ev c = Some c'"
  shows "c_state c' = S_closed \<and> c_fd c' = -1"
proof -
  let ?c = "c\<lparr>c_transport := ep, c_world := w\<rparr>"
  have rd: "transport_read T (\<lambda>c. Some (True, c)) (\<lambda>c. c) c = enter_error T ?c"
    using assms(3,4) by (subst transport_read.simps) (simp add: Let_def)
  have "dispatch T (Some ev) c \<noteq> None"
    using assms(6) unfolding handle_event_def by (rule steps_dispatch)
  then obtain c1 where c1: "enter_error T ?c = Some c1"
    using assms(1,2) rd by (auto simp: dispatch_def step_drain_protocol_def)
  let ?c1 = "c1\<lparr>c_rx := clear (c_rx c1)\<rparr>"
  have "transport_write T False ?c1 = Some (True, ?c1)"
    using enter_error_state [OF c1] by (subst transport_write.simps) simp
  then have "dispatch T (Some ev) c = Some (True, enter_close_transport ?c1)"
    using assms(1,2) rd c1 by (simp add: dispatch_def step_drain_protocol_def)
  from steps_step [OF this] assms(1,6) have "steps T (Some ev) (enter_close_transport ?c1) = Some c'"
    by (simp add: enter_close_transport_def handle_event_def)
  from steps_close_transport [OF _ assms(5) this] show ?thesis by (simp add: enter_close_transport_def)
qed

lemma rx_full:
  assumes "c_state c = S_protocol" "net_ev_readable (net_of T) ev" "full (c_rx c)" "handle_event T ev c = Some c'"
  shows "c_state c' = S_error \<and> c_fd c' = -1"
proof -
  have rd: "transport_read T (consume_protocol T) enter_close_transport c = enter_error T c"
    using assms(3) by (subst transport_read.simps) simp
  have "dispatch T (Some ev) c \<noteq> None"
    using assms(4) unfolding handle_event_def by (rule steps_dispatch)
  then obtain c1 where c1: "enter_error T c = Some c1"
    using assms(1,2) rd by (auto simp: dispatch_def step_Protocol_def)
  note e = enter_error_state [OF c1]
  have tw: "transport_write T True c1 = Some (True, c1)" using e by (subst transport_write.simps) simp
  then have "dispatch T (Some ev) c = Some (True, c1)"
    using assms(1,2) rd c1 by (simp add: dispatch_def step_Protocol_def)
  from steps_step [OF this] assms(1,4) e have "steps T (Some ev) c1 = Some c'" by (simp add: handle_event_def)
  with e steps_done [of c1 T "Some ev"] show ?thesis by (simp add: conn_done_def)
qed

section \<open>Concrete connections\<close>

datatype 'v conn_op = Op_event 'v | Op_heartbeat | Op_restart | Op_stop

fun run_ops ::
    "('w, 'v, 'e, 's, 't, 'p) templ \<Rightarrow> 'v conn_op list \<Rightarrow> ('w, 'e, 's, 't, 'p) conn \<Rightarrow> ('w, 'e, 's, 't, 'p) conn option" where
  "run_ops T [] c = Some c"
| "run_ops T (Op_event ev # ops) c = handle_event T ev c \<bind> run_ops T ops"
| "run_ops T (Op_heartbeat # ops) c = heartbeat T c \<bind> run_ops T ops"
| "run_ops T (Op_restart # ops) c = restart T c \<bind> run_ops T ops"
| "run_ops T (Op_stop # ops) c = stop T c \<bind> run_ops T ops"

lemma run_ops_lifecycle: "lifecycle T c \<Longrightarrow> run_ops T ops c = Some c' \<Longrightarrow> lifecycle T c'"
  by (induction T ops c rule: run_ops.induct)
    (auto simp: defined_iff intro: life_event life_heartbeat life_restart life_stop)

definition sample_run :: "byte list list \<Rightarrow> sample_event conn_op list \<Rightarrow> (script, plain_endpoint, unit, unit, unit) conn option" where
  "sample_run bss ops = attach sample_T 1 (sample_new bss) \<bind> run_ops sample_T ops"

definition sample_conn :: "byte list list \<Rightarrow> sample_event conn_op list \<Rightarrow> (script, plain_endpoint, unit, unit, unit) conn" where
  "sample_conn bss ops = the (sample_run bss ops)"

lemma sample_lifecycle:
  assumes "sample_run bss ops \<noteq> None"
  shows "lifecycle sample_T (sample_conn bss ops)"
proof -
  obtain c0 where c0: "attach sample_T 1 (sample_new bss) = Some c0"
    using assms by (cases "attach sample_T 1 (sample_new bss)") (simp_all add: sample_run_def)
  then obtain c where c: "run_ops sample_T ops c0 = Some c"
    using assms by (cases "run_ops sample_T ops c0") (simp_all add: sample_run_def)
  have "lifecycle sample_T c0"
    by (rule life_attach [OF _ _ c0 [unfolded sample_new_def]]) simp_all
  from run_ops_lifecycle [OF this c] c0 c show ?thesis by (simp add: sample_conn_def sample_run_def)
qed

definition sample_up :: "(script, plain_endpoint, unit, unit, unit) conn" where
  "sample_up = sample_conn (Cons (Cons 1 (Cons 2 [])) []) [Op_event sample_rw]"

definition sample_down :: "(script, plain_endpoint, unit, unit, unit) conn" where
  "sample_down = sample_conn (Cons (Cons 1 (Cons 2 [])) []) [Op_event sample_rw, Op_stop]"

lemma sample_up: "lifecycle sample_T sample_up"
  unfolding sample_up_def by (rule sample_lifecycle) code_simp

lemma sample_down: "lifecycle sample_T sample_down"
  unfolding sample_down_def by (rule sample_lifecycle) code_simp

lemma sample_states: "c_state sample_up = S_protocol" "c_state sample_down = S_closed"
  by code_simp+

definition sample_pot :: "script \<Rightarrow> nat" where
  "sample_pot w = sum_list (map (\<lambda>bs. length bs + 1) (sc_in w))"

lemma sample_net_wf: "net_wf sample_net"
  by (auto simp: net_wf_def sample_net_def sample_read_def sample_write_def split: list.splits if_splits)

lemma sample_net_live: "live_net sample_pot sample_net"
  using sample_net_wf unfolding live_net_def
  by (auto simp: sample_net_def quiet_net_def sample_pot_def sample_read_def sample_write_def
      split: list.splits if_splits)

lemma echo_live: "live_protocol sample_pot Echo"
proof -
  have "returns (\<lambda>(st, s', rx', tx', w'). shrinks rx rx' \<and> extends tx tx' \<and> sample_pot w' \<le> sample_pot w)
      (echo_on_data s rx tx w)" if ok: "buffer_ok rx" "buffer_ok tx" for s rx tx w
  proof -
    let ?n = "min (length (rbuf rx)) (wbuf_size tx)"
    obtain tx' where tx': "emit (take ?n (rbuf rx)) tx = Some tx'" by (auto simp: emit_Some)
    from extends_emit [OF ok(2) tx'] shrinks_read [OF ok(1), of ?n] tx' show ?thesis
      by (simp add: echo_on_data_def Let_def)
  qed
  then show ?thesis by (simp add: live_protocol_def live_handler_def Echo_def)
qed

lemma sample_records: "records_writes sc_out sample_net" "silent sc_out sample_T"
  using sample_net_wf
  by (auto simp: records_writes_def silent_def sample_T_def plain_templ_def Echo_def sample_net_def sample_write_def)

section \<open>Properties\<close>

text \<open>
  C1: descriptor discipline.  Through any life of a connection, the calls that open, subscribe,
  clear and close descriptors form a well-bracketed log: a descriptor is opened only when none is
  held, only the held one is subscribed, cleared or closed, and the member \<open>_fd\<close> is the
  descriptor held.  A connection that is done (closed or in error) holds none, and one that is
  connecting, handshaking, exchanging data or closing its protocol holds one.
\<close>

theorem connection_descriptor:
  assumes "lifecycle T c"
  shows "replay (c_calls c) = Some (c_fd c) \<and> (conn_done c \<longrightarrow> c_fd c = -1) \<and>
     (c_state c \<in> {S_in_progress, S_transport, S_protocol, S_close_protocol} \<longrightarrow> 0 \<le> c_fd c)"
proof -
  from lifecycle_ok [OF assms] have inv: "conn_inv c" by (simp add: conn_ok_def)
  then have "replay (c_calls c) = Some (c_fd c)" by (simp add: conn_inv_def)
  from replay_range [OF this] inv show ?thesis by (auto simp: conn_inv_def fd_states_def)
qed

theorem connection_descriptor_witness:
  "c_state sample_up = S_protocol \<and> 0 \<le> c_fd sample_up \<and>
   conn_done sample_down \<and> replay (c_calls sample_down) = Some (-1)"
  using connection_descriptor [OF sample_up] connection_descriptor [OF sample_down]
  by (simp add: sample_states conn_done_def)

text \<open>
  C12: no descriptor outlives its connection.  Destroying a connection at any point of its life leaves
  every descriptor it ever opened closed, each once, and destroying one that is done touches neither
  the session nor the transport.
\<close>

theorem connection_destroyed:
  assumes "lifecycle T c" "destruct T c = Some c'"
  shows "replay (c_calls c') = Some (-1) \<and> c_fd c' = -1 \<and> (conn_done c \<longrightarrow> c' = c)"
proof -
  from lifecycle_ok [OF assms(1)] have inv: "conn_inv c" by (simp add: conn_ok_def)
  then have "replay (c_calls c) = Some (c_fd c)" by (simp add: conn_inv_def)
  from ensuresD [OF teardown_spec [OF this] assms(2) [unfolded destruct_def]]
  have "replay (c_calls c') = Some (-1)" "c_fd c' = -1" by simp_all
  moreover have "c' = c" if "conn_done c"
    using that inv assms(2) by (auto simp: conn_inv_def destruct_def teardown_def)
  ultimately show ?thesis by blast
qed

theorem connection_destroyed_witness:
  "\<exists>c'. destruct sample_T sample_up = Some c' \<and> c_fd sample_up \<noteq> -1 \<and> c_fd c' = -1 \<and> replay (c_calls c') = Some (-1)"
proof -
  have "\<not> Option.is_none (destruct sample_T sample_up) \<and> c_fd sample_up \<noteq> -1" by code_simp
  then obtain c' where s: "destruct sample_T sample_up = Some c'" "c_fd sample_up \<noteq> -1"
    by (auto simp: Option.is_none_def)
  from connection_destroyed [OF sample_up s(1)] s show ?thesis by blast
qed

text \<open>
  C2: no lost wake-up.  Whenever a connection waits for an event, its last subscription watches
  for one that will move it: writability while connecting, something while handshaking or
  closing the transport, readability in the protocol states, and writability in addition as long
  as the transmit buffer holds unsent bytes.
\<close>

theorem connection_armed:
  assumes "lifecycle T c"
  shows "armed c"
  using lifecycle_ok [OF assms] by (simp add: conn_ok_def)

theorem connection_armed_witness: "c_state sample_up = S_protocol \<and> wants_read (c_calls sample_up)"
  using connection_armed [OF sample_up] by (simp add: armed_def sample_states)

text \<open>
  C11: the state machine moves forward only.  One event takes a connection through a chain of
  successor states, each strictly later in the order uninitialized, connecting, handshaking,
  protocol, closing the protocol, draining, closing the transport, done; a connection that is
  done ignores events.
\<close>

theorem handle_event_forward:
  assumes "lifecycle T c" "handle_event T ev c = Some c'"
  shows "reaches (c_state c) (c_state c') \<and>
     (c_state c' = c_state c \<or> rank (c_state c) < rank (c_state c')) \<and> (conn_done c \<longrightarrow> c' = c)"
proof -
  from ensuresD [OF handle_event_ok [OF lifecycle_ok [OF assms(1)]] assms(2)]
  have r: "reaches (c_state c) (c_state c')" by simp
  then have "c_state c' = c_state c \<or> rank (c_state c) < rank (c_state c')"
    by (induction rule: rtranclp_induct) (auto dest: later_rank)
  moreover have "c' = c" if "conn_done c"
    using steps_done [OF that, of T "Some ev"] assms(2) by (simp add: handle_event_def)
  ultimately show ?thesis using r by blast
qed

theorem handle_event_forward_witness:
  "handle_event sample_T sample_rw sample_down = Some sample_down \<and> reaches S_closed S_closed"
proof -
  have e: "handle_event sample_T sample_rw sample_down = Some sample_down"
    unfolding handle_event_def by (rule steps_done) (simp add: conn_done_def sample_states)
  from handle_event_forward [OF sample_down e] e show ?thesis by (simp add: sample_states)
qed

text \<open>
  C10: every public operation returns.  Over the plain transport, with a backend whose deliveries
  end and a session whose handlers return, an event, a heartbeat, a restart and a stop all
  return, in every state a connection can be in.
\<close>

theorem connection_operations_return:
  assumes "live_net pot N" "live_protocol pot P" "lifecycle (plain_templ N R P) c"
  shows "(\<exists>c'. handle_event (plain_templ N R P) ev c = Some c') \<and> (\<exists>c'. heartbeat (plain_templ N R P) c = Some c') \<and>
     (\<exists>c'. restart (plain_templ N R P) c = Some c') \<and> (\<exists>c'. stop (plain_templ N R P) c = Some c')"
  using live_plain.operations_return [of "(N, R, P, pot)" c ev] assms by simp

theorem connection_operations_return_witness:
  "(\<exists>c'. handle_event sample_T sample_rw sample_up = Some c') \<and> (\<exists>c'. stop sample_T sample_up = Some c')"
  using connection_operations_return [OF sample_net_live echo_live sample_up [unfolded sample_T_def], of sample_rw]
  by (simp add: sample_T_def)



text \<open>
  The function \<open>stop\<close> closes.  With a transport and a session that have no shutdown of their own,
  stopping a connection that is not yet done or draining ends in \<open>closed\<close>, with the descriptor
  released, within the call.
\<close>

theorem stop_closes:
  assumes "t_shutdown_step (transport_of T) = None" "p_on_shutdown (protocol_of T) = None"
    and "c_state c \<in> {S_uninitialized, S_in_progress, S_transport, S_protocol, S_close_transport}"
    and "stop T c = Some c'"
  shows "c_state c' = S_closed \<and> c_fd c' = -1"
  using assms by (rule stop_plain)

theorem stop_closes_witness: "\<exists>c'. stop sample_T sample_up = Some c' \<and> c_state c' = S_closed \<and> c_fd c' = -1"
proof -
  have "stop sample_T sample_up \<noteq> None" by code_simp
  then obtain c' where s: "stop sample_T sample_up = Some c'" by auto
  from stop_closes [OF _ _ _ s] s show ?thesis
    by (simp add: sample_states) (simp add: sample_T_def plain_templ_def Plain_def Echo_def)
qed



text \<open>
  A full receive buffer is an error however little of it is unread.  The read loop gives up as
  soon as the write position has reached the end of the buffer; the space of the bytes already
  consumed is only reclaimed once every byte is consumed.
\<close>

theorem rx_full_is_error:
  assumes "c_state c = S_protocol" "net_ev_readable (net_of T) ev" "full (c_rx c)" "handle_event T ev c = Some c'"
  shows "c_state c' = S_error \<and> c_fd c' = -1"
  using assms by (rule rx_full)

theorem rx_full_is_error_witness:
  "\<exists>c'. handle_event sample_T sample_rw (sample_up\<lparr>c_rx := \<lparr>mem = [1, 2, 3, 4], rpos = 3, wpos = 4\<rparr>\<rparr>) = Some c' \<and>
     c_state c' = S_error"
proof -
  let ?c = "sample_up\<lparr>c_rx := \<lparr>mem = [1, 2, 3, 4], rpos = 3, wpos = 4\<rparr>\<rparr>"
  have "handle_event sample_T sample_rw ?c \<noteq> None" by code_simp
  then obtain c' where h: "handle_event sample_T sample_rw ?c = Some c'" by auto
  have "net_ev_readable (net_of sample_T) sample_rw" "full (c_rx ?c)" by code_simp+
  with rx_full_is_error [OF _ _ _ h] h sample_states show ?thesis by simp
qed

end
