(* ===== verification/Connection_Frame.thy ===== *)
theory Connection_Frame
  imports Connection_Inv
begin

text \<open>
  What every operation of a connection leaves alone, and memory safety of its buffers.  The
  relation \<open>kept\<close> says that the identity of the connection (cookie, host, port and the two
  configurations) is unchanged and that, with template arguments that keep their contracts, the
  two buffers stay well-formed arrays of the same capacity; moreover every property of the session
  that the protocol's handlers keep is kept.  It is a preorder, and every member function is shown to
  respect it, following the call graph.
\<close>

section \<open>The relation\<close>

definition lawful :: "('w, 'v, 'e, 's, 't, 'p) templ \<Rightarrow> bool" where
  "lawful T \<longleftrightarrow>
     (\<forall>ep rx w st ep' rx' w'. buffer_ok rx \<longrightarrow> t_read (transport_of T) ep rx w = Some (st, ep', rx', w') \<longrightarrow> extends rx rx') \<and>
     (\<forall>ep tx w st ep' tx' w'. buffer_ok tx \<longrightarrow> t_write (transport_of T) ep tx w = Some (st, ep', tx', w') \<longrightarrow> shrinks tx tx') \<and>
     handler_ok (p_on_data (protocol_of T)) \<and>
     pred_option handler_ok (p_on_connect (protocol_of T)) \<and> pred_option handler_ok (p_on_shutdown (protocol_of T)) \<and>
     (case p_heartbeat (protocol_of T) of None \<Rightarrow> True | Some hb \<Rightarrow>
        \<forall>s tx w s' tx' w'. buffer_ok tx \<longrightarrow> hb s tx w = Some (s', tx', w') \<longrightarrow> extends tx tx')"

definition bufs_ok :: "nat \<Rightarrow> nat \<Rightarrow> ('w, 'e, 's, 't, 'p) conn \<Rightarrow> bool" where
  "bufs_ok m n c \<longleftrightarrow> buffer_ok (c_rx c) \<and> buffer_ok (c_tx c) \<and> cap (c_rx c) = m \<and> cap (c_tx c) = n"

text \<open>A property of the session that a new session has and that no handler breaks.\<close>

definition handler_keeps :: "('s \<Rightarrow> bool) \<Rightarrow> ('w, 's) handler \<Rightarrow> bool" where
  "handler_keeps I h \<longleftrightarrow> (\<forall>s rx tx w st s' rx' tx' w'. I s \<longrightarrow> h s rx tx w = Some (st, s', rx', tx', w') \<longrightarrow> I s')"

definition session_inv :: "('w, 's, 'p) protocol \<Rightarrow> ('s \<Rightarrow> bool) \<Rightarrow> bool" where
  "session_inv P I \<longleftrightarrow>
     (\<forall>host port config. I (p_session P host port config)) \<and> handler_keeps I (p_on_data P) \<and>
     pred_option (handler_keeps I) (p_on_connect P) \<and> pred_option (handler_keeps I) (p_on_shutdown P) \<and>
     (\<forall>hb s tx w s' tx' w'. p_heartbeat P = Some hb \<longrightarrow> I s \<longrightarrow> hb s tx w = Some (s', tx', w') \<longrightarrow> I s') \<and>
     (\<forall>td s w s' w'. p_teardown P = Some td \<longrightarrow> I s \<longrightarrow> td s w = Some (s', w') \<longrightarrow> I s')"

definition session_le :: "('w, 's, 'p) protocol \<Rightarrow> 's \<Rightarrow> 's \<Rightarrow> bool" where
  "session_le P s s' \<longleftrightarrow> (\<forall>I. session_inv P I \<longrightarrow> I s \<longrightarrow> I s')"

lemma session_le_refl [simp]: "session_le P s s"
  unfolding session_le_def by blast

lemma session_le_trans: "session_le P a b \<Longrightarrow> session_le P b c \<Longrightarrow> session_le P a c"
  unfolding session_le_def by blast

lemma session_leI: "(\<And>I. session_inv P I \<Longrightarrow> I s \<Longrightarrow> I s') \<Longrightarrow> session_le P s s'"
  unfolding session_le_def by blast

lemma session_leD: "session_le P s s' \<Longrightarrow> session_inv P I \<Longrightarrow> I s \<Longrightarrow> I s'"
  unfolding session_le_def by blast

definition kept ::
    "('w, 'v, 'e, 's, 't, 'p) templ \<Rightarrow> ('w, 'e, 's, 't, 'p) conn \<Rightarrow> ('w, 'e, 's, 't, 'p) conn \<Rightarrow> bool" where
  "kept T c c' \<longleftrightarrow> c_cookie c' = c_cookie c \<and> c_host c' = c_host c \<and> c_port c' = c_port c \<and>
     c_transport_config c' = c_transport_config c \<and> c_protocol_config c' = c_protocol_config c \<and>
     (\<forall>m n. lawful T \<longrightarrow> bufs_ok m n c \<longrightarrow> bufs_ok m n c') \<and>
     session_le (protocol_of T) (c_protocol c) (c_protocol c')"

lemma kept_refl [simp]: "kept T c c"
  by (simp add: kept_def)

lemma kept_trans: "kept T a b \<Longrightarrow> kept T b c \<Longrightarrow> kept T a c"
  unfolding kept_def by (auto intro: session_le_trans)

text \<open>Updates of the other members, on either side.\<close>

lemma kept_update [simp]:
  "kept T c (c'\<lparr>c_state := s\<rparr>) = kept T c c'" "kept T c (c'\<lparr>c_fd := f\<rparr>) = kept T c c'"
  "kept T c (c'\<lparr>c_transport := ep\<rparr>) = kept T c c'"
  "kept T c (c'\<lparr>c_calls := l\<rparr>) = kept T c c'" "kept T c (c'\<lparr>c_world := w\<rparr>) = kept T c c'"
  by (simp_all add: kept_def bufs_ok_def)

lemma kept_update_left [simp]:
  "kept T (c\<lparr>c_state := s\<rparr>) = kept T c" "kept T (c\<lparr>c_fd := f\<rparr>) = kept T c"
  "kept T (c\<lparr>c_transport := ep\<rparr>) = kept T c"
  "kept T (c\<lparr>c_calls := l\<rparr>) = kept T c" "kept T (c\<lparr>c_world := w\<rparr>) = kept T c"
  by (simp_all add: kept_def bufs_ok_def fun_eq_iff)

lemma kept_clear [simp]:
  "kept T c (c\<lparr>c_rx := clear (c_rx c)\<rparr>)" "kept T c (c\<lparr>c_rx := clear (c_rx c), c_tx := clear (c_tx c)\<rparr>)"
  by (auto simp: kept_def bufs_ok_def buffer_ok_def)

lemma kept_ensures_trans: "kept T a b \<Longrightarrow> ensures (kept T b) m \<Longrightarrow> ensures (kept T a) m"
  by (auto elim!: ensures_mono intro: kept_trans)

lemma kept_bind:
  "ensures (kept T c) m \<Longrightarrow> (\<And>c'. ensures (kept T c') (f c')) \<Longrightarrow> ensures (kept T c) (Option.bind m f)"
  by (auto elim!: ensures_mono intro: kept_ensures_trans)

abbreviation kept_snd ::
    "('w, 'v, 'e, 's, 't, 'p) templ \<Rightarrow> ('w, 'e, 's, 't, 'p) conn \<Rightarrow> bool \<times> ('w, 'e, 's, 't, 'p) conn \<Rightarrow> bool" where
  "kept_snd T c r \<equiv> kept T c (snd r)"

section \<open>Leaving, arming and writing\<close>

lemma subscribe_kept [simp]: "kept T c (subscribe T r v c)"
  by (simp add: subscribe_def)

lemma enter_close_transport_kept [simp]: "kept T c (enter_close_transport c') = kept T c c'"
  by (simp add: enter_close_transport_def)

lemma release_kept [simp]: "kept T c (release T c') = kept T c c'"
  by (simp add: release_def case_prod_unfold Let_def)

lemma session_kept:
  "session_le (protocol_of T) (c_protocol c) s \<Longrightarrow> kept T c (c\<lparr>c_protocol := s\<rparr>)"
  by (simp add: kept_def bufs_ok_def)

lemma teardown_protocol_kept: "ensures (kept T c) (teardown_protocol T c)"
proof (cases "p_teardown (protocol_of T)")
  case (Some td)
  show ?thesis
  proof (rule ensuresI)
    fix c' assume "teardown_protocol T c = Some c'"
    with Some obtain s w where td: "td (c_protocol c) (c_world c) = Some (s, w)"
      and c': "c' = c\<lparr>c_protocol := s, c_world := w\<rparr>" by (auto simp: teardown_protocol_def defined_iff)
    have "session_le (protocol_of T) (c_protocol c) s"
      by (rule session_leI) (use Some td in \<open>unfold session_inv_def, blast\<close>)
    from session_kept [OF this] show "kept T c c'" by (simp add: c')
  qed
qed (simp add: teardown_protocol_def)

lemma teardown_kept: "ensures (kept T c) (teardown T c)"
  by (auto simp: teardown_def case_prod_unfold intro: ensures_mono [OF teardown_protocol_kept] ensures_any)

lemma enter_error_kept: "ensures (kept T c) (enter_error T c)"
  using teardown_kept [of T "c\<lparr>c_state := S_error\<rparr>"] by (simp add: enter_error_def)

lemma enter_closed_kept: "ensures (kept T c) (enter_closed T c)"
  using teardown_kept [of T "c\<lparr>c_state := S_closed\<rparr>"] by (simp add: enter_closed_def)

lemma arm_kept: "ensures (kept T c) (arm T status c)"
  by (simp add: arm_def enter_error_kept split: transport_status.split)

lemma write_kept:
  assumes "t_write (transport_of T) (c_transport c) (c_tx c) (c_world c) = Some (status, ep, tx, w)"
  shows "kept T c (c\<lparr>c_transport := ep, c_tx := tx, c_world := w\<rparr>)"
proof -
  have "shrinks (c_tx c) tx" if "lawful T" "buffer_ok (c_tx c)"
    using that assms unfolding lawful_def by blast
  then show ?thesis by (auto simp: kept_def bufs_ok_def shrinks_def)
qed

lemma transport_write_kept: "ensures (kept_snd T c) (transport_write T re_arm c)"
proof (rule ensuresI)
  fix r assume r: "transport_write T re_arm c = Some r"
  show "kept_snd T c r"
  proof (rule transport_write.raw_induct [where P = "\<lambda>T re_arm c r. kept_snd T c r", OF _ r], goal_cases step)
    case (step rec T re_arm c r)
    show ?case
    proof (cases "c_fd c \<noteq> -1 \<and> rbuf (c_tx c) \<noteq> []")
      case True
      with step(2) obtain status ep tx w where
        wr: "t_write (transport_of T) (c_transport c) (c_tx c) (c_world c) = Some (status, ep, tx, w)"
        by (auto simp: defined_iff Let_def)
      let ?c = "c\<lparr>c_transport := ep, c_tx := tx, c_world := w\<rparr>"
      note k = write_kept [OF wr]
      have arm: "kept T c c'" if "arm T st ?c = Some c'" for st c'
        using kept_trans [OF k] ensuresD [OF arm_kept that] by blast
      have rec: "kept_snd T c r'" if "rec T re_arm ?c = Some r'" for r'
        using kept_trans [OF k] step(1) [OF that] by blast
      from step(2) True wr show ?thesis
        by (auto simp: Let_def defined_iff split: if_splits intro: arm rec k [simplified])
    qed (use step(2) in \<open>auto split: if_splits\<close>)
  qed
qed

section \<open>Calling the protocol\<close>

definition own_handler :: "('w, 'v, 'e, 's, 't, 'p) templ \<Rightarrow> ('w, 's) handler \<Rightarrow> bool" where
  "own_handler T h \<longleftrightarrow> (lawful T \<longrightarrow> handler_ok h) \<and>
     (\<forall>s rx tx w st s' rx' tx' w'. h s rx tx w = Some (st, s', rx', tx', w') \<longrightarrow> session_le (protocol_of T) s s')"

lemma own_handlerI:
  assumes "lawful T \<Longrightarrow> handler_ok h" "\<And>I. session_inv (protocol_of T) I \<Longrightarrow> handler_keeps I h"
  shows "own_handler T h"
  using assms unfolding own_handler_def session_le_def handler_keeps_def by blast

lemma own_handlers:
  "own_handler T (p_on_data (protocol_of T))"
  "p_on_connect (protocol_of T) = Some h \<Longrightarrow> own_handler T h"
  "p_on_shutdown (protocol_of T) = Some h \<Longrightarrow> own_handler T h"
  by (rule own_handlerI; simp add: lawful_def session_inv_def)+

lemma own_handlerD:
  "own_handler T h \<Longrightarrow> lawful T \<Longrightarrow> handler_ok h"
  "own_handler T h \<Longrightarrow> h s rx tx w = Some (st, s', rx', tx', w') \<Longrightarrow> session_le (protocol_of T) s s'"
  unfolding own_handler_def by blast+

lemma call_handler_kept:
  assumes "own_handler T h"
  shows "ensures (\<lambda>(st, c'). kept T c c') (call_handler h c)"
proof (rule ensuresI)
  fix r assume r: "call_handler h c = Some r"
  then obtain st s rx tx w where h: "h (c_protocol c) (c_rx c) (c_tx c) (c_world c) = Some (st, s, rx, tx, w)"
    and eq: "r = (st, c\<lparr>c_protocol := s, c_rx := rx, c_tx := tx, c_world := w\<rparr>)"
    by (auto simp: call_handler_def defined_iff)
  have "shrinks (c_rx c) rx \<and> extends (c_tx c) tx" if "lawful T" "bufs_ok m n c" for m n
    using handler_okD [OF own_handlerD(1) [OF assms that(1)] _ _ h] that(2) by (simp add: bufs_ok_def)
  moreover have "session_le (protocol_of T) (c_protocol c) s"
    by (rule own_handlerD(2) [OF assms h])
  ultimately show "case r of (st, c') \<Rightarrow> kept T c c'"
    by (auto simp: eq kept_def bufs_ok_def shrinks_def extends_def)
qed

lemma consume_shutdown_loop_kept:
  "own_handler T h \<Longrightarrow> ensures (kept_snd T c) (consume_shutdown_loop T h c)"
proof (induction T h c rule: consume_shutdown_loop.induct)
  case (1 T h c)
  show ?case
  proof (rule ensuresI)
    fix r assume r: "consume_shutdown_loop T h c = Some r"
    then obtain st c1 where c1: "call_handler h c = Some (st, c1)"
      by (subst (asm) consume_shutdown_loop.simps) (auto simp: Let_def split: option.splits)
    have k1: "kept T c c1" using ensuresD [OF call_handler_kept [OF 1(2)] c1] by simp
    show "kept_snd T c r"
    proof (cases st)
      case P_ok
      with r c1 obtain b c2 where c2: "transport_write T True c1 = Some (b, c2)"
        by (subst (asm) consume_shutdown_loop.simps) (auto simp: Let_def split: option.splits)
      have k2: "kept T c c2" using kept_trans [OF k1] ensuresD [OF transport_write_kept c2] by simp
      have "kept_snd T c2 r" if "c_state c2 = S_close_protocol" "length (rbuf (c_rx c2)) < length (rbuf (c_rx c))"
        "consume_shutdown_loop T h c2 = Some r"
        using ensuresD [OF "1.IH" [OF refl _ _ _ _ _ _ _ "1.prems"] that(3)] c1 c2 P_ok that by auto
      with r c1 c2 k2 P_ok show ?thesis
        by (subst (asm) consume_shutdown_loop.simps) (auto simp: Let_def intro: kept_trans split: if_splits)
    next
      case P_close
      with r c1 k1 show ?thesis
        by (subst (asm) consume_shutdown_loop.simps) (auto simp: Let_def)
    next
      case P_error
      with r c1 obtain c2 where "enter_error T c1 = Some c2" "r = (False, c2)"
        by (subst (asm) consume_shutdown_loop.simps) (auto simp: Let_def defined_iff)
      with k1 ensuresD [OF enter_error_kept] show ?thesis by (auto intro: kept_trans)
    qed
  qed
qed

lemma enter_close_protocol_kept: "ensures (kept T c) (enter_close_protocol T c)"
  using consume_shutdown_loop_kept [of T _ "c\<lparr>c_state := S_close_protocol\<rparr>"] own_handlers(3) [of T]
  by (auto simp: enter_close_protocol_def enter_close_protocol_loop_eq split: option.split)

lemma kept_write_bind:
  assumes "\<And>b c'. kept T c c' \<Longrightarrow> ensures (kept T c) (f (b, c'))"
  shows "ensures (kept T c) (Option.bind (transport_write T re_arm c) f)"
  using ensures_mono [OF transport_write_kept, of T c "\<lambda>r. ensures (kept T c) (f r)" re_arm] assms by fastforce

lemma kept_then: "kept T c c' \<Longrightarrow> ensures (kept T c') m \<Longrightarrow> ensures (kept T c) m"
  by (rule kept_ensures_trans)

lemma bind_protocol_kept:
  assumes "own_handler T h"
  shows "ensures (kept T c) (bind_protocol T h c)"
proof (cases "call_handler h c")
  case (Some r)
  obtain st c1 where r: "r = (st, c1)" by (cases r)
  have k1: "kept T c c1" using ensuresD [OF call_handler_kept [OF assms] Some] r by simp
  have flush: "ensures (kept T c1) (transport_write T True c1 \<bind> (\<lambda>(_, c). Some c))"
    by (rule kept_write_bind) simp
  have close: "ensures (kept T c1) (transport_write T True c1 \<bind> (\<lambda>(_, c).
      case p_on_shutdown (protocol_of T) of
        Some _ \<Rightarrow> (if c_state c = S_protocol then enter_close_protocol T c else Some (enter_close_transport c))
      | None \<Rightarrow> transport_write T True c \<bind> (\<lambda>(flushed, c).
          Some (if flushed then enter_close_transport c else c\<lparr>c_state := S_drain_protocol\<rparr>))))"
  proof (rule kept_write_bind, unfold prod.case, rule kept_then, assumption)
    fix c2
    show "ensures (kept T c2) (case p_on_shutdown (protocol_of T) of
        Some _ \<Rightarrow> (if c_state c2 = S_protocol then enter_close_protocol T c2 else Some (enter_close_transport c2))
      | None \<Rightarrow> transport_write T True c2 \<bind> (\<lambda>(flushed, c).
          Some (if flushed then enter_close_transport c else c\<lparr>c_state := S_drain_protocol\<rparr>)))"
      by (auto simp: enter_close_protocol_kept simp del: ensures_bind intro!: kept_write_bind split: option.split)
  qed
  show ?thesis
    using kept_then [OF k1 flush] kept_then [OF k1 close] kept_then [OF k1 enter_error_kept]
    by (cases st) (simp_all add: bind_protocol_def Some r)
qed (simp add: bind_protocol_def)

lemma enter_Protocol_kept: "ensures (kept T c) (enter_Protocol T c)"
proof -
  let ?c = "c\<lparr>c_state := S_protocol\<rparr>"
  have "ensures (kept T ?c) (bind_protocol T h ?c)" if "p_on_connect (protocol_of T) = Some h" for h
    using own_handlers(2) that by (intro bind_protocol_kept) blast
  moreover have "ensures (kept T ?c) (transport_write T True ?c \<bind> (\<lambda>(_, c). Some c))"
    by (rule kept_write_bind) simp
  ultimately show ?thesis
    by (auto simp: enter_Protocol_def Let_def simp del: ensures_bind split: option.split)
qed

lemma protocol_consume_kept: "ensures (kept T c) (protocol_consume T c)"
proof (induction T c rule: protocol_consume.induct)
  case (1 T c)
  have b: "ensures (kept T c) (bind_protocol T (p_on_data (protocol_of T)) c)"
    by (rule bind_protocol_kept) (rule own_handlers)
  show ?case
    unfolding protocol_consume.simps [of T c] Let_def
    using ensuresD [OF b] "1.IH" [OF refl] by (auto split: option.split intro: kept_then)
qed

section \<open>Reading and the steps\<close>

lemma consume_protocol_kept: "ensures (kept_snd T c) (consume_protocol T c)"
  using protocol_consume_kept [of T c] by (simp add: consume_protocol_def)

lemma consume_shutdown_kept: "ensures (kept_snd T c) (consume_shutdown T c)"
  using consume_shutdown_loop_kept [of T _ c] own_handlers(3) [of T]
  by (auto simp: consume_shutdown_def split: option.split)

lemma read_kept:
  assumes "t_read (transport_of T) (c_transport c) (c_rx c) (c_world c) = Some (status, ep, rx, w)"
  shows "kept T c (c\<lparr>c_transport := ep, c_rx := rx, c_world := w\<rparr>)"
proof -
  have "extends (c_rx c) rx" if "lawful T" "buffer_ok (c_rx c)"
    using that assms unfolding lawful_def by blast
  then show ?thesis by (auto simp: kept_def bufs_ok_def extends_def)
qed

lemma transport_read_kept:
  assumes "\<And>c. ensures (kept_snd T c) (consume c)" "\<And>c. kept T c (on_close c)"
  shows "ensures (kept T c) (transport_read T consume on_close c)"
proof (rule ensuresI)
  fix r assume r: "transport_read T consume on_close c = Some r"
  let ?P = "\<lambda>T consume on_close c r. (\<forall>c. ensures (kept_snd T c) (consume c)) \<longrightarrow> (\<forall>c. kept T c (on_close c)) \<longrightarrow> kept T c r"
  have "?P T consume on_close c r"
  proof (rule transport_read.raw_induct [where P = ?P, OF _ r], intro impI, goal_cases step)
    case (step rec T consume on_close c r)
    show ?case
    proof (cases "full (c_rx c)")
      case True
      with step(2) ensuresD [OF enter_error_kept] show ?thesis by auto
    next
      case False
      with step(2) obtain st ep rx w where
        rd: "t_read (transport_of T) (c_transport c) (c_rx c) (c_world c) = Some (st, ep, rx, w)"
        by (auto simp: defined_iff Let_def)
      let ?c = "c\<lparr>c_transport := ep, c_rx := rx, c_world := w\<rparr>"
      note k1 = read_kept [OF rd]
      from step(2) False rd obtain b c2 where
        c2: "(if length (rbuf (c_rx ?c)) \<noteq> length (rbuf (c_rx c)) then consume ?c else Some (True, ?c)) = Some (b, c2)"
        and rest: "(if \<not> b then Some c2 else case st of T_ok \<Rightarrow> rec T consume on_close c2 | T_close \<Rightarrow> Some (on_close c2)
          | T_want_read \<Rightarrow> arm T st c2 | T_want_write \<Rightarrow> arm T st c2 | T_error \<Rightarrow> enter_error T c2) = Some r"
        by (auto simp: Let_def bind_Some_iff)
      have "kept T ?c c2"
        using c2 ensuresD [OF step(3) [rule_format], of ?c "(b, c2)"] by (auto split: if_splits)
      with k1 have k2: "kept T c c2" by (rule kept_trans)
      have "kept T c2 r"
        using rest step(1) [of T consume on_close c2 r] step(3,4) ensuresD [OF arm_kept [of T c2 st]] ensuresD [OF enter_error_kept [of T c2]]
        by (cases b; cases st) auto
      with k2 show ?thesis by (rule kept_trans)
    qed
  qed
  with assms show "kept T c r" by blast
qed

lemma enter_connected_kept: "ensures (kept T c) (enter_connected T c)"
proof (cases "t_init (transport_of T) (c_fd c) (c_transport_config c) (c_world c)")
  case (Some r)
  obtain ep w where r: "r = (ep, w)" by (cases r)
  have fail: "ensures (kept T c) (teardown_protocol T (c\<lparr>c_world := w, c_state := S_error\<rparr>) \<bind> (\<lambda>c. Some (release T c)))"
    using ensures_mono [OF teardown_protocol_kept [of T "c\<lparr>c_world := w, c_state := S_error\<rparr>"], of "kept T c"] by simp
  have up: "ensures (kept T c) (enter_Protocol T (subscribe T True False (c\<lparr>c_world := w, c_transport := e\<rparr>)))" for e
    by (rule kept_then [OF _ enter_Protocol_kept])
      (use subscribe_kept [of T "c\<lparr>c_world := w, c_transport := e\<rparr>" True False] in simp)
  show ?thesis
    using fail up by (auto simp: enter_connected_def Some r Let_def simp del: ensures_bind split: option.split)
qed (simp add: enter_connected_def)

lemma step_in_progress_kept: "ensures (kept T c) (step_in_progress T ev c)"
  using enter_error_kept [of T "c\<lparr>c_world := w\<rparr>" for w] enter_connected_kept [of T "c\<lparr>c_world := w\<rparr>" for w]
    enter_error_kept [of T c]
  by (simp add: step_in_progress_def case_prod_unfold Let_def)

lemma kept_endpoint:
  assumes "\<And>c. ensures (kept T c) (m c)"
  shows "ensures (kept T c) (m (c\<lparr>c_transport := ep, c_world := w\<rparr>))"
  using assms [of "c\<lparr>c_transport := ep, c_world := w\<rparr>"] by simp

lemmas endpoint_kept =
  kept_endpoint [OF enter_Protocol_kept] kept_endpoint [OF enter_error_kept] kept_endpoint [OF enter_closed_kept]
  kept_endpoint [where m = "arm T st" for T st, OF arm_kept]

lemma step_Transport_kept: "ensures (kept T c) (step_Transport T c)"
proof (cases "t_handshake_step (transport_of T)")
  case (Some h)
  then show ?thesis
    by (cases "h (c_transport c) (c_world c)") (auto simp: step_Transport_def Let_def endpoint_kept)
qed (simp add: step_Transport_def)

lemma tail_write_kept:
  "ensures (kept T c) (if p then transport_write T True c \<bind> (\<lambda>(_, c). Some c) else Some c)"
  by (auto simp del: ensures_bind intro: kept_write_bind)

lemma step_Protocol_kept: "ensures (kept T c) (step_Protocol T ev c)"
  unfolding step_Protocol_def
  by (rule kept_bind [OF _ tail_write_kept]) (simp add: transport_read_kept consume_protocol_kept)

lemma step_close_protocol_kept: "ensures (kept T c) (step_close_protocol T ev c)"
  unfolding step_close_protocol_def
  by (rule kept_bind [OF _ tail_write_kept]) (simp add: transport_read_kept consume_shutdown_kept)

lemma drain_read_kept:
  "ensures (kept T c) (transport_read T (\<lambda>c. Some (True, c)) (\<lambda>c. c) c \<bind> (\<lambda>c. Some (c\<lparr>c_rx := clear (c_rx c)\<rparr>)))"
  by (rule kept_bind [OF transport_read_kept]) simp_all

lemma step_drain_protocol_kept: "ensures (kept T c) (step_drain_protocol T ev c)"
  unfolding step_drain_protocol_def
  by (rule kept_bind) (auto simp del: ensures_bind intro: drain_read_kept kept_write_bind)

lemma step_close_transport_kept: "ensures (kept T c) (step_close_transport T c)"
proof (cases "t_shutdown_step (transport_of T)")
  case (Some h)
  then show ?thesis
    by (cases "h (c_transport c) (c_world c)")
      (auto simp: step_close_transport_def Let_def endpoint_kept split: transport_status.split)
qed (simp add: step_close_transport_def enter_closed_kept)

lemma dispatch_kept: "ensures (kept_snd T c) (dispatch T ev c)"
  by (simp add: dispatch_def step_in_progress_kept step_Transport_kept step_Protocol_kept step_close_protocol_kept
      step_drain_protocol_kept step_close_transport_kept split: state_t.split option.split)

lemma steps_kept: "ensures (kept T c) (steps T ev c)"
proof (rule ensuresI)
  fix r assume r: "steps T ev c = Some r"
  show "kept T c r"
  proof (rule steps.raw_induct [where P = "\<lambda>T ev c r. kept T c r", OF _ r], goal_cases step)
    case (step rec T ev c r)
    then obtain b c1 where d: "dispatch T ev c = Some (b, c1)"
      and rest: "(if \<not> b then Some c1 else if c_state c1 = c_state c then Some c1 else rec T ev c1) = Some r"
      by (auto simp: defined_iff)
    have "kept T c c1" using ensuresD [OF dispatch_kept d] by simp
    with rest step(1) show ?case by (auto intro: kept_trans split: if_splits)
  qed
qed

section \<open>The public interface\<close>

lemma handle_event_kept: "ensures (kept T c) (handle_event T ev c)"
  unfolding handle_event_def by (rule steps_kept)

lemma enter_uninitialized_kept: "ensures (kept T c) (enter_uninitialized T c)"
proof -
  obtain result l w where d: "dial (net_of T) (resolver_of T) (c_host c) (c_port c) (c_calls c) (c_world c) = (result, l, w)"
    by (metis surj_pair)
  let ?c = "c\<lparr>c_state := S_uninitialized, c_rx := clear (c_rx c), c_tx := clear (c_tx c), c_calls := l, c_world := w, c_fd := dr_fd result\<rparr>"
  have k: "kept T c ?c" by (auto simp: kept_def bufs_ok_def buffer_ok_def)
  have "ensures (kept T c) (enter_connected T ?c \<bind> steps T None)"
    by (rule kept_then [OF k]) (rule kept_bind [OF enter_connected_kept steps_kept])
  then show ?thesis
    using k kept_trans [OF _ subscribe_kept, of T c "?c\<lparr>c_state := S_in_progress\<rparr>" False True]
    by (simp add: enter_uninitialized_def d Let_def del: ensures_bind)
qed

lemma restart_kept: "ensures (kept T c) (restart T c)"
proof -
  have "ensures (kept T c') (enter_uninitialized T
      (c'\<lparr>c_protocol := p_session (protocol_of T) (c_host c') (c_port c') (c_protocol_config c')\<rparr>))" for c'
    by (rule kept_then [OF session_kept enter_uninitialized_kept]) (simp add: session_le_def session_inv_def)
  then have "ensures (kept T c) (teardown T c \<bind> (\<lambda>c. enter_uninitialized T
      (c\<lparr>c_protocol := p_session (protocol_of T) (c_host c) (c_port c) (c_protocol_config c)\<rparr>)))"
    by (rule kept_bind [OF teardown_kept])
  then show ?thesis by (simp add: restart_def del: ensures_bind)
qed

lemma lawful_heartbeat:
  assumes "lawful T" "p_heartbeat (protocol_of T) = Some hb" "buffer_ok tx" "hb s tx w = Some (s', tx', w')"
  shows "extends tx tx'"
proof -
  from assms(1,2) have "\<forall>s tx w s' tx' w'. buffer_ok tx \<longrightarrow> hb s tx w = Some (s', tx', w') \<longrightarrow> extends tx tx'"
    unfolding lawful_def by simp
  with assms(3,4) show ?thesis by blast
qed

lemma heartbeat_kept: "ensures (kept T c) (heartbeat T c)"
proof (cases "p_heartbeat (protocol_of T)")
  case (Some hb)
  show ?thesis
  proof (cases "hb (c_protocol c) (c_tx c) (c_world c)")
    case h: (Some r)
    obtain s tx w where r: "r = (s, tx, w)" by (cases r)
    have "ensures (kept T c) (transport_write T True (c\<lparr>c_protocol := s, c_tx := tx, c_world := w\<rparr>) \<bind> (\<lambda>(_, c). Some c))"
    proof (rule kept_then)
      have "extends (c_tx c) tx" if "lawful T" "buffer_ok (c_tx c)"
        using lawful_heartbeat [OF that(1) Some that(2) h [unfolded r]] .
      moreover have "session_le (protocol_of T) (c_protocol c) s"
        by (rule session_leI) (use Some h r in \<open>unfold session_inv_def, blast\<close>)
      ultimately show "kept T c (c\<lparr>c_protocol := s, c_tx := tx, c_world := w\<rparr>)"
        by (auto simp: kept_def bufs_ok_def extends_def)
    qed (rule kept_write_bind, simp)
    then show ?thesis by (simp add: heartbeat_def Some h r del: ensures_bind)
  qed (simp add: heartbeat_def Some)
qed (simp add: heartbeat_def)

lemma stop_kept: "ensures (kept T c) (stop T c)"
proof -
  have "ensures (kept T c) (stop_switch T c)"
    by (simp add: stop_switch_def enter_closed_kept enter_close_protocol_kept split: state_t.split)
  then show ?thesis unfolding stop_def by (rule kept_bind) (rule steps_kept)
qed

lemmas keptD = ensuresD [OF handle_event_kept] ensuresD [OF heartbeat_kept] ensuresD [OF restart_kept]
  ensuresD [OF stop_kept]

text \<open>The buffers stay in range through the whole life of a connection.\<close>

lemma lifecycle_bufs:
  assumes "lawful T"
  shows "lifecycle T c \<Longrightarrow> buffer_ok (c_rx c) \<and> buffer_ok (c_tx c)"
proof (induction rule: lifecycle.induct)
  case (life_attach rx_cap tx_cap cookie host port tc pc w c)
  let ?c = "(Connection T rx_cap tx_cap host port tc pc w)\<lparr>c_cookie := cookie\<rparr>"
  have "enter_uninitialized T ?c = Some c" using life_attach(3) by (simp add: attach_def Connection_def)
  from ensuresD [OF enter_uninitialized_kept this] have "kept T ?c c" .
  moreover have "bufs_ok rx_cap tx_cap ?c"
    using life_attach(1,2) by (simp add: Connection_def bufs_ok_def buffer_ok_def)
  ultimately show ?case using assms by (auto simp: kept_def bufs_ok_def)
next
  case (life_event c ev c')
  from keptD(1) [OF life_event.hyps(2)] life_event.IH assms show ?case by (auto simp: kept_def bufs_ok_def)
next
  case (life_heartbeat c c')
  from keptD(2) [OF life_heartbeat.hyps(2)] life_heartbeat.IH assms show ?case by (auto simp: kept_def bufs_ok_def)
next
  case (life_restart c c')
  from keptD(3) [OF life_restart.hyps(2)] life_restart.IH assms show ?case by (auto simp: kept_def bufs_ok_def)
next
  case (life_stop c c')
  from keptD(4) [OF life_stop.hyps(2)] life_stop.IH assms show ?case by (auto simp: kept_def bufs_ok_def)
next
  case (life_world c w)
  then show ?case by simp
qed

text \<open>So does every property of the session that the handlers keep.\<close>

lemma lifecycle_session:
  assumes "session_inv (protocol_of T) I"
  shows "lifecycle T c \<Longrightarrow> I (c_protocol c)"
proof (induction rule: lifecycle.induct)
  case (life_attach rx_cap tx_cap cookie host port tc pc w c)
  let ?c = "(Connection T rx_cap tx_cap host port tc pc w)\<lparr>c_cookie := cookie\<rparr>"
  have "enter_uninitialized T ?c = Some c" using life_attach(3) by (simp add: attach_def Connection_def)
  from ensuresD [OF enter_uninitialized_kept this] have "kept T ?c c" .
  moreover have "I (c_protocol ?c)" using assms by (simp add: Connection_def session_inv_def)
  ultimately show ?case using session_leD [OF _ assms] unfolding kept_def by blast
qed (auto dest!: keptD simp: kept_def dest: session_leD [OF _ assms])

section \<open>Lawful template arguments\<close>

text \<open>A transport and a protocol that keep their contracts give a lawful connection.\<close>

locale lawful_parts = transport_laws tr env_ok + protocol_laws pr penv_ok
  for tr :: "'env \<Rightarrow> ('w, 'e, 't) transport" and env_ok :: "'env \<Rightarrow> bool"
    and pr :: "'penv \<Rightarrow> ('w, 's, 'p) protocol" and penv_ok :: "'penv \<Rightarrow> bool"
begin

lemma parts_lawful:
  assumes "env_ok env" "penv_ok penv" "transport_of T = tr env" "protocol_of T = pr penv"
  shows "lawful T"
  using read_extends [OF assms(1)] write_shrinks [OF assms(1)] on_data_ok [OF assms(2)] on_connect_ok [OF assms(2)]
    on_shutdown_ok [OF assms(2)] heartbeat_ok [OF assms(2)]
  unfolding lawful_def assms(3,4) by (auto simp: option.pred_set split: option.split)

lemma buffers_safe:
  assumes "env_ok env" "penv_ok penv" "transport_of T = tr env" "protocol_of T = pr penv" "lifecycle T c"
  shows "buffer_ok (c_rx c) \<and> buffer_ok (c_tx c)"
  by (rule lifecycle_bufs [OF parts_lawful [OF assms(1-4)] assms(5)])

end

end
