(* ===== verification/Reactor_Inv.thy ===== *)
theory Reactor_Inv
  imports Reactor Connection_Props Connection_Frame
begin

text \<open>
  What one turn of the reactor does to one connection.  The relation \<open>conn_turn\<close> lists the
  calls the reactor makes to a connection and the conditions under which it makes them; every
  function of \<open>Reactor\<close> is shown to move each connection by that relation only.
\<close>

section \<open>The calls a connection sees\<close>

inductive conn_turn :: "('w, 'v, 'e, 's, 't, 'p) templ \<Rightarrow> bool \<Rightarrow> ('w, 'e, 's, 't, 'p) conn \<Rightarrow> ('w, 'e, 's, 't, 'p) conn \<Rightarrow> bool"
  for T :: "('w, 'v, 'e, 's, 't, 'p) templ" and stopping :: bool where
  turn_idle: "conn_turn T stopping c c"
| turn_stop: "stopping \<Longrightarrow> stop T (c\<lparr>c_world := w\<rparr>) = Some c' \<Longrightarrow> conn_turn T stopping c c'"
| turn_event: "\<not> conn_done c \<Longrightarrow> handle_event T ev (c\<lparr>c_world := w\<rparr>) = Some c' \<Longrightarrow>
    stopping \<or> \<not> conn_closed c' \<Longrightarrow> conn_turn T stopping c c'"
| turn_restart: "\<not> stopping \<Longrightarrow> \<not> conn_done c \<Longrightarrow> handle_event T ev (c\<lparr>c_world := w\<rparr>) = Some c1 \<Longrightarrow>
    conn_closed c1 \<Longrightarrow> restart T c1 = Some c' \<Longrightarrow> conn_turn T stopping c c'"

text \<open>\<open>follows R r r'\<close>: connection by connection, \<open>r'\<close> comes from \<open>r\<close> by \<open>R\<close>.\<close>

definition follows ::
    "(nat \<Rightarrow> ('w, 'e, 's, 't, 'p) conn \<Rightarrow> ('w, 'e, 's, 't, 'p) conn \<Rightarrow> bool) \<Rightarrow>
     ('w, 'e, 's, 't, 'p) reactor \<Rightarrow> ('w, 'e, 's, 't, 'p) reactor \<Rightarrow> bool" where
  "follows R r r' \<longleftrightarrow> length (r_connections r') = length (r_connections r) \<and>
     (\<forall>i < length (r_connections r).
        rel_option (R i) (r_connections r ! i) (r_connections r' ! i))"

definition same_flags :: "('w, 'e, 's, 't, 'p) reactor \<Rightarrow> ('w, 'e, 's, 't, 'p) reactor \<Rightarrow> bool" where
  "same_flags r r' \<longleftrightarrow> r_stopping r' = r_stopping r \<and> r_counter r' = r_counter r \<and> r_stops r' = r_stops r \<and> r_beats r' = r_beats r"

lemma follows_refl: "(\<And>i c. R i c c) \<Longrightarrow> follows R r r"
  by (simp add: follows_def option.rel_refl)

lemma follows_mono: "follows R r r' \<Longrightarrow> (\<And>i c c'. R i c c' \<Longrightarrow> S i c c') \<Longrightarrow> follows S r r'"
  unfolding follows_def by (blast intro: option.rel_mono_strong)

lemma follows_trans: "follows R r r1 \<Longrightarrow> follows S r1 r2 \<Longrightarrow> follows (\<lambda>i. R i OO S i) r r2"
  by (auto simp: follows_def option.rel_compp)

lemma follows_nth:
  "follows R r r' \<Longrightarrow> i < length (r_connections r) \<Longrightarrow> r_connections r' ! i = Some c' \<Longrightarrow>
     \<exists>c. r_connections r ! i = Some c \<and> R i c c'"
  unfolding follows_def by (metis option_rel_Some2)

lemma follows_nth_fwd:
  "follows R r r' \<Longrightarrow> i < length (r_connections r) \<Longrightarrow> r_connections r ! i = Some c \<Longrightarrow>
     \<exists>c'. r_connections r' ! i = Some c' \<and> R i c c'"
  unfolding follows_def by (metis option_rel_Some1)

lemma follows_at:
  assumes "follows (\<lambda>j c c'. if j = i then A c c' else c' = c) r r'"
    and "r_connections r ! i = Some c" "r_connections r' ! i = Some c'" "R i c c'" "\<And>j c. R j c c"
  shows "follows R r r'"
proof -
  have "rel_option (R j) (r_connections r ! j) (r_connections r' ! j)" if "j < length (r_connections r)" for j
  proof (cases "j = i")
    case False
    with assms(1) that have "rel_option (\<lambda>c c'. c' = c) (r_connections r ! j) (r_connections r' ! j)"
      by (auto simp: follows_def)
    then show ?thesis by (rule option.rel_mono_strong) (use assms(5) in simp)
  qed (use assms in simp)
  with assms(1) show ?thesis by (simp add: follows_def)
qed

lemma on_conn_follows:
  assumes "on_conn i f r = Some r'"
  shows "follows (\<lambda>j c c'. if j = i then \<exists>w. f (c\<lparr>c_world := w\<rparr>) = Some c' else c' = c) r r' \<and> same_flags r r'"
proof (cases "r_connections r ! i")
  case None
  with assms show ?thesis by (auto simp: on_conn_def follows_def same_flags_def rel_option_iff split: option.split)
next
  case (Some c)
  with assms obtain c' where f: "f (c\<lparr>c_world := r_world r\<rparr>) = Some c'"
    and r': "r' = r\<lparr>r_connections := (r_connections r)[i := Some c'], r_world := c_world c'\<rparr>"
    by (auto simp: on_conn_def defined_iff)
  have "rel_option (\<lambda>c c'. if j = i then \<exists>w. f (c\<lparr>c_world := w\<rparr>) = Some c' else c' = c)
      (r_connections r ! j) (r_connections r' ! j)" if "j < length (r_connections r)" for j
    using that Some f r' by (cases "j = i") (auto simp: rel_option_iff split: option.split)
  then show ?thesis using r' by (simp add: follows_def same_flags_def)
qed

lemma each_follows:
  assumes "each f is r = Some r'" "distinct is"
  shows "follows (\<lambda>j c c'. if j \<in> set is then \<exists>w. f j (c\<lparr>c_world := w\<rparr>) = Some c' else c' = c) r r' \<and> same_flags r r'"
  using assms
proof (induction "is" arbitrary: r)
  case Nil
  then show ?case by (simp add: follows_refl same_flags_def)
next
  case (Cons i js)
  from Cons.prems obtain r1 where r1: "on_conn i (f i) r = Some r1" "each f js r1 = Some r'"
    by (auto simp: defined_iff)
  note a = on_conn_follows [OF r1(1)] and b = Cons.IH [OF r1(2)]
  from Cons.prems b have b: "follows (\<lambda>j c c'. if j \<in> set js then \<exists>w. f j (c\<lparr>c_world := w\<rparr>) = Some c' else c' = c) r1 r'"
    "same_flags r1 r'" by auto
  from follows_trans [OF conjunct1 [OF a] b(1)] a b(2) Cons.prems(2) show ?case
    by (auto simp: same_flags_def elim!: follows_mono split: if_splits)
qed

lemma conn_event_follows:
  assumes "conn_event N T ev r = Some r'"
  shows "follows (\<lambda>i. conn_turn (T i) (r_stopping r)) r r' \<and> same_flags r r'"
proof -
  from assms obtain i c where d: "deref (net_get_user_data N ev) r = Some (i, c)"
    by (auto simp: conn_event_def defined_iff)
  note eq = assms [unfolded conn_event_def d, simplified]
  show ?thesis
  proof (cases "conn_done c")
    case True
    with eq show ?thesis by (auto simp: same_flags_def intro: follows_refl turn_idle)
  next
    case False
    from eq False obtain r1 c1 where r1: "on_conn i (handle_event (T i) ev) r = Some r1"
      and d1: "deref (net_get_user_data N ev) r1 = Some (i, c1)"
      and rest: "(if \<not> r_stopping r1 \<and> conn_closed c1 then on_conn i (restart (T i)) r1 else Some r1) = Some r'"
      using d by (auto simp: defined_iff deref_def split: if_splits)
    have i: "i < length (r_connections r)" "r_connections r ! i = Some c" "r_connections r1 ! i = Some c1"
      using d d1 by (auto simp: deref_def split: if_splits)
    note f1 = on_conn_follows [OF r1]
    obtain w where h: "handle_event (T i) ev (c\<lparr>c_world := w\<rparr>) = Some c1"
      using follows_nth [OF conjunct1 [OF f1] i(1,3)] i(2) by auto
    have w1: "r_world r1 = c_world c1"
      using r1 i by (auto simp: on_conn_def defined_iff)
    show ?thesis
    proof (cases "\<not> r_stopping r1 \<and> conn_closed c1")
      case True
      with rest have r': "on_conn i (restart (T i)) r1 = Some r'" by simp
      note f2 = on_conn_follows [OF r']
      from r' i(3) obtain c2 where c2: "restart (T i) c1 = Some c2" "r_connections r' = (r_connections r1)[i := Some c2]"
        by (auto simp: on_conn_def defined_iff w1)
      have turn: "conn_turn (T i) (r_stopping r) c c2"
        using turn_restart [where stopping = "r_stopping r", OF _ False h _ c2(1)] True f1 by (simp add: same_flags_def)
      have "i < length (r_connections r1)" using i(1) f1 by (simp add: follows_def)
      then have c2': "r_connections r' ! i = Some c2" using c2(2) by simp
      have "follows (\<lambda>j c c'. if j = i then True else c' = c) r r'"
        using follows_trans [OF conjunct1 [OF f1] conjunct1 [OF f2]]
        by (rule follows_mono) (auto split: if_splits)
      from follows_at [OF this i(2) c2', of "\<lambda>i. conn_turn (T i) (r_stopping r)", OF turn turn_idle] f1 f2
      show ?thesis by (simp add: same_flags_def)
    next
      case noclose: False
      with rest have r': "r' = r1" by (auto split: if_splits)
      have "conn_turn (T i) (r_stopping r) c c1"
        using turn_event [OF False h] noclose f1 by (auto simp: same_flags_def)
      from follows_at [OF conjunct1 [OF f1] i(2,3), of "\<lambda>i. conn_turn (T i) (r_stopping r)", OF this turn_idle] f1 r'
      show ?thesis by simp
    qed
  qed
qed

section \<open>The invariant of the reactor\<close>

definition leaving :: "state_t set" where
  "leaving = {S_close_protocol, S_drain_protocol, S_close_transport, S_closed, S_error}"

lemma leaving_later: "s \<in> leaving \<Longrightarrow> s' \<in> later s \<Longrightarrow> s' \<in> leaving"
  by (auto simp: leaving_def)

lemma leaving_reaches: "reaches s s' \<Longrightarrow> s \<in> leaving \<Longrightarrow> s' \<in> leaving"
  by (induction rule: rtranclp_induct) (auto intro: leaving_later)

lemma stop_switch_leaves:
  assumes "conn_ok T c"
  shows "ensures (\<lambda>c'. c_state c' \<in> leaving) (stop_switch T c)"
proof -
  have inv: "conn_inv c" using assms by (simp add: conn_ok_def)
  have closed: "ensures (\<lambda>c'. c_state c' \<in> leaving) (enter_closed T c)"
    by (rule ensures_mono [OF enter_closed_spec [OF inv]]) (auto simp: leaving_def)
  have ecp: "ensures (\<lambda>c'. c_state c' \<in> leaving) (enter_close_protocol T c)" if "c_state c = S_protocol"
  proof (rule ensures_mono [OF enter_close_protocol_good [OF inv]])
    show "c_fd c \<noteq> -1" using conn_inv_live [OF inv] that by (simp add: fd_states_def)
    fix c' :: "('a, 'c, 'd, 'e, 'f) conn" assume "good (later S_protocol) c'"
    from goodD(3) [OF this] show "c_state c' \<in> leaving" by (auto simp: leaving_def)
  qed
  show ?thesis
    using closed ecp
    by (cases "c_state c") (auto simp: stop_switch_def enter_close_transport_def leaving_def)
qed

lemma stop_leaves:
  assumes "lifecycle T c" "stop T c = Some c'"
  shows "c_state c' \<in> leaving"
proof -
  note ok = lifecycle_ok [OF assms(1)]
  from assms(2) obtain c1 where c1: "stop_switch T c = Some c1" "steps T None c1 = Some c'"
    by (auto simp: stop_def defined_iff)
  from ensuresD [OF stop_switch_spec [OF ok] c1(1)] have "step_pre T c1" by simp
  from ensuresD [OF steps_spec [OF this] c1(2)] have "reaches (c_state c1) (c_state c')" by simp
  with ensuresD [OF stop_switch_leaves [OF ok] c1(1)] show ?thesis by (blast intro: leaving_reaches)
qed

definition conn_fine :: "('w, 'v, 'e, 's, 't, 'p) templ \<Rightarrow> bool \<Rightarrow> ('w, 'e, 's, 't, 'p) conn \<Rightarrow> bool" where
  "conn_fine T stopping c \<longleftrightarrow> lifecycle T c \<and> (stopping \<longrightarrow> c_state c \<in> leaving)"

lemma conn_turn_fine:
  assumes "conn_turn T stopping c c'" "conn_fine T stopping c"
  shows "conn_fine T stopping c'"
  using assms(1)
proof cases
  case turn_idle
  with assms(2) show ?thesis by simp
next
  case (turn_stop w)
  have l: "lifecycle T (c\<lparr>c_world := w\<rparr>)" using assms(2) by (simp add: conn_fine_def life_world)
  from life_stop [OF l turn_stop(2)] stop_leaves [OF l turn_stop(2)] show ?thesis by (simp add: conn_fine_def)
next
  case (turn_event ev w)
  have l: "lifecycle T (c\<lparr>c_world := w\<rparr>)" using assms(2) by (simp add: conn_fine_def life_world)
  from ensuresD [OF handle_event_ok [OF lifecycle_ok [OF l]] turn_event(2)] have "reaches (c_state c) (c_state c')"
    by simp
  with assms(2) life_event [OF l turn_event(2)] leaving_reaches show ?thesis by (auto simp: conn_fine_def)
next
  case (turn_restart ev w c1)
  have l: "lifecycle T (c\<lparr>c_world := w\<rparr>)" using assms(2) by (simp add: conn_fine_def life_world)
  from life_restart [OF life_event [OF l turn_restart(3)] turn_restart(5)] turn_restart(1) show ?thesis
    by (simp add: conn_fine_def)
qed

definition conns_fine :: "(nat \<Rightarrow> ('w, 'v, 'e, 's, 't, 'p) templ) \<Rightarrow> ('w, 'e, 's, 't, 'p) reactor \<Rightarrow> bool" where
  "conns_fine T r \<longleftrightarrow> (\<forall>i < length (r_connections r). pred_option (conn_fine (T i) (r_stopping r)) (r_connections r ! i))"

definition reactor_ok :: "(nat \<Rightarrow> ('w, 'v, 'e, 's, 't, 'p) templ) \<Rightarrow> ('w, 'e, 's, 't, 'p) reactor \<Rightarrow> bool" where
  "reactor_ok T r \<longleftrightarrow> conns_fine T r \<and> (r_stopping r \<and> all_done r \<longrightarrow> 0 < r_stops r)"

lemma conns_fine_follows:
  assumes "conns_fine T r" "follows R r r'"
    and "\<And>i c c'. R i c c' \<Longrightarrow> conn_fine (T i) (r_stopping r) c \<Longrightarrow> conn_fine (T i) (r_stopping r') c'"
  shows "conns_fine T r'"
  unfolding conns_fine_def
proof (intro allI impI)
  fix i assume "i < length (r_connections r')"
  then have i: "i < length (r_connections r)" using assms(2) by (simp add: follows_def)
  show "pred_option (conn_fine (T i) (r_stopping r')) (r_connections r' ! i)"
  proof (cases "r_connections r' ! i")
    case (Some c')
    from follows_nth [OF assms(2) i Some] obtain c where c: "r_connections r ! i = Some c" "R i c c'" by blast
    from assms(1) i c(1) have "conn_fine (T i) (r_stopping r) c" unfolding conns_fine_def by fastforce
    from assms(3) [OF c(2) this] Some show ?thesis by simp
  qed simp
qed

lemma stop_net_simps [simp]:
  "r_connections (stop_net N r) = r_connections r" "r_stopping (stop_net N r) = r_stopping r"
  "r_counter (stop_net N r) = r_counter r" "r_beats (stop_net N r) = r_beats r" "r_stops (stop_net N r) = Suc (r_stops r)"
  "all_done (stop_net N r) = all_done r" "conns_fine T (stop_net N r) = conns_fine T r"
  by (simp_all add: stop_net_def all_done_def conns_fine_def)

lemma conns_fine_world [simp]:
  "conns_fine T (r\<lparr>r_world := w\<rparr>) = conns_fine T r" "all_done (r\<lparr>r_world := w\<rparr>) = all_done r"
  "conns_fine T (r\<lparr>r_counter := k\<rparr>) = conns_fine T r" "all_done (r\<lparr>r_counter := k\<rparr>) = all_done r"
  by (simp_all add: conns_fine_def all_done_def)

lemma stop_all_fine:
  assumes "conns_fine T r" "stop_all T (r\<lparr>r_stopping := True\<rparr>) = Some r'"
  shows "conns_fine T r' \<and> r_stopping r'"
proof -
  let ?n = "length (r_connections r)"
  from each_follows [OF assms(2) [unfolded stop_all_def]]
  have f: "follows (\<lambda>j c c'. if j \<in> set [0..<?n] then \<exists>w. stop (T j) (c\<lparr>c_world := w\<rparr>) = Some c' else c' = c) (r\<lparr>r_stopping := True\<rparr>) r'"
    and s: "r_stopping r'" by (simp_all add: same_flags_def)
  have "follows (\<lambda>j c c'. \<exists>w. stop (T j) (c\<lparr>c_world := w\<rparr>) = Some c') r r'"
    using f by (auto simp: follows_def)
  then have "conns_fine T r'"
  proof (rule conns_fine_follows [OF assms(1)], goal_cases)
    case (1 i c c')
    then obtain w where w: "stop (T i) (c\<lparr>c_world := w\<rparr>) = Some c'" by blast
    have l: "lifecycle (T i) (c\<lparr>c_world := w\<rparr>)" using 1(2) by (simp add: conn_fine_def life_world)
    from life_stop [OF l w] stop_leaves [OF l w] show ?case by (simp add: conn_fine_def)
  qed
  with s show ?thesis by simp
qed

lemma on_event_ok:
  assumes "conns_fine T r" "on_event N T ev r = Some r'"
  shows "reactor_ok T r' \<and> r_counter r' = r_counter r \<and> r_beats r' = r_beats r \<and> r_stops r \<le> r_stops r' \<and> (r_stopping r \<longrightarrow> r_stopping r')"
proof -
  obtain kill w where k: "net_ev_signal N ev (r_world r) = (kill, w)" by (metis surj_pair)
  let ?r = "r\<lparr>r_world := w\<rparr>"
  from assms(2) [unfolded on_event_def k Let_def prod.case bind_Some_iff] obtain r1 where
    r1: "(if kill then (if \<not> r_stopping ?r then stop_all T (?r\<lparr>r_stopping := True\<rparr>) else Some ?r) else conn_event N T ev ?r) = Some r1"
    and r': "r' = (if r_stopping r1 \<and> all_done r1 then stop_net N r1 else r1)"
    by auto
  have fine: "conns_fine T ?r" using assms(1) by simp
  have "conns_fine T r1 \<and> r_counter r1 = r_counter r \<and> r_beats r1 = r_beats r \<and> r_stops r1 = r_stops r \<and> (r_stopping r \<longrightarrow> r_stopping r1)"
  proof (cases kill)
    case True
    show ?thesis
    proof (cases "r_stopping r")
      case False
      with True r1 have s: "stop_all T (?r\<lparr>r_stopping := True\<rparr>) = Some r1" by simp
      from each_follows [OF s [unfolded stop_all_def]] have "r_counter r1 = r_counter r \<and> r_beats r1 = r_beats r \<and> r_stops r1 = r_stops r"
        by (simp add: same_flags_def)
      with stop_all_fine [OF fine s] show ?thesis by simp
    qed (use True r1 fine in auto)
  next
    case False
    with r1 have "conn_event N T ev ?r = Some r1" by simp
    note f = conn_event_follows [OF this]
    from f have fl: "r_stopping r1 = r_stopping r" "r_counter r1 = r_counter r" "r_beats r1 = r_beats r" "r_stops r1 = r_stops r"
      by (simp_all add: same_flags_def)
    have "conns_fine T r1"
      by (rule conns_fine_follows [OF fine conjunct1 [OF f]]) (use fl conn_turn_fine in auto)
    with fl show ?thesis by simp
  qed
  then show ?thesis by (auto simp: r' reactor_ok_def)
qed

lemma on_events_ok:
  "reactor_ok T r \<Longrightarrow> on_events N T evs r = Some r' \<Longrightarrow>
     reactor_ok T r' \<and> r_counter r' = r_counter r \<and> r_beats r' = r_beats r \<and> r_stops r \<le> r_stops r' \<and> (r_stopping r \<longrightarrow> r_stopping r')"
proof (induction evs arbitrary: r)
  case (Cons ev evs)
  from Cons.prems(2) obtain r1 where r1: "on_event N T ev r = Some r1" "on_events N T evs r1 = Some r'"
    by (auto simp: defined_iff)
  from Cons.prems(1) have "conns_fine T r" by (simp add: reactor_ok_def)
  note a = on_event_ok [OF this r1(1)]
  from Cons.IH [OF _ r1(2)] a show ?case by auto
qed simp

lemma each_heartbeat_leaving:
  assumes "conn_fine T True c" "heartbeat T (c\<lparr>c_world := w\<rparr>) = Some c'"
  shows "c_state c' = c_state c"
  using assms by (auto simp: conn_fine_def leaving_def heartbeat_def split: option.splits)

lemma heartbeat_all_ok:
  assumes "reactor_ok T r" "heartbeat_all T r = Some r'"
  shows "reactor_ok T r' \<and> r_counter r' = r_counter r \<and> r_stopping r' = r_stopping r \<and> r_stops r' = r_stops r \<and>
     r_beats r' = Suc (r_beats r)"
proof -
  let ?n = "length (r_connections r)"
  from each_follows [OF assms(2) [unfolded heartbeat_all_def]]
  have f: "follows (\<lambda>j c c'. if j \<in> set [0..<?n] then \<exists>w. heartbeat (T j) (c\<lparr>c_world := w\<rparr>) = Some c' else c' = c) (r\<lparr>r_beats := Suc (r_beats r)\<rparr>) r'"
    and s: "same_flags (r\<lparr>r_beats := Suc (r_beats r)\<rparr>) r'" by simp_all
  have f: "follows (\<lambda>j c c'. \<exists>w. heartbeat (T j) (c\<lparr>c_world := w\<rparr>) = Some c') r r'"
    using f by (auto simp: follows_def)
  from assms(1) have fine: "conns_fine T r" and st: "r_stopping r \<and> all_done r \<longrightarrow> 0 < r_stops r"
    by (simp_all add: reactor_ok_def)
  have fine': "conns_fine T r'"
  proof (rule conns_fine_follows [OF fine f], goal_cases)
    case (1 i c c')
    then obtain w where w: "heartbeat (T i) (c\<lparr>c_world := w\<rparr>) = Some c'" by blast
    have l: "lifecycle (T i) (c\<lparr>c_world := w\<rparr>)" using 1(2) by (simp add: conn_fine_def life_world)
    show ?case
      using life_heartbeat [OF l w] each_heartbeat_leaving [OF _ w] 1(2) s
      by (cases "r_stopping r") (auto simp: conn_fine_def same_flags_def)
  qed
  have "all_done r" if stop: "r_stopping r" and done': "all_done r'"
    unfolding all_done_def list_all_length
  proof (intro allI impI)
    fix i assume i: "i < ?n"
    show "case r_connections r ! i of None \<Rightarrow> True | Some c \<Rightarrow> conn_done c"
    proof (cases "r_connections r ! i")
      case (Some c)
      from follows_nth_fwd [OF f i Some] obtain c' w where c': "r_connections r' ! i = Some c'"
        and w: "heartbeat (T i) (c\<lparr>c_world := w\<rparr>) = Some c'" by blast
      from fine i Some stop have "conn_fine (T i) True c" unfolding conns_fine_def by fastforce
      from each_heartbeat_leaving [OF this w] have "conn_done c = conn_done c'" by (simp add: conn_done_def)
      moreover have "i < length (r_connections r')" using i f by (simp add: follows_def)
      then have "conn_done c'" using done' c' unfolding all_done_def list_all_length by fastforce
      ultimately show ?thesis using Some by simp
    qed simp
  qed
  with fine' st s show ?thesis by (auto simp: reactor_ok_def same_flags_def)
qed

lemma reactor_loop_ok:
  assumes "reactor_ok T r" "reactor_loop N T r = Some r'"
  shows "reactor_ok T r' \<and> r_counter r' = r_counter r + 1 \<and> (r_stopping r \<longrightarrow> r_stopping r') \<and>
     r_beats r' = r_beats r + (if (r_counter r + 1) AND 63 = 0 then 1 else 0)"
proof -
  obtain nevents events w where p: "net_poll N (NUM_EVENTS r) (r_world r) = ((nevents, events), w)"
    by (metis surj_pair)
  let ?r = "if nevents < 0 then stop_net N (r\<lparr>r_world := w\<rparr>) else r\<lparr>r_world := w\<rparr>"
  from assms(2) [unfolded reactor_loop_def p Let_def prod.case bind_Some_iff]
  obtain r1 where r1: "on_events N T (take (nat nevents) events) ?r = Some r1"
    and hb: "(if r_counter (r1\<lparr>r_counter := r_counter r1 + 1\<rparr>) AND 63 = 0
              then heartbeat_all T (r1\<lparr>r_counter := r_counter r1 + 1\<rparr>)
              else Some (r1\<lparr>r_counter := r_counter r1 + 1\<rparr>)) = Some r'" by auto
  have "reactor_ok T ?r" using assms(1) by (simp add: reactor_ok_def)
  from on_events_ok [OF this r1] have a: "reactor_ok T r1" "r_counter r1 = r_counter r" "r_beats r1 = r_beats r" "r_stopping r \<longrightarrow> r_stopping r1"
    by (auto split: if_splits)
  from a(1) have ok: "reactor_ok T (r1\<lparr>r_counter := r_counter r1 + 1\<rparr>)" by (simp add: reactor_ok_def)
  show ?thesis
    using hb a ok heartbeat_all_ok [OF ok, of r'] by (auto split: if_splits)
qed

section \<open>The life of a reactor\<close>

inductive reactor_life ::
    "('w, 'v) net \<Rightarrow> (nat \<Rightarrow> ('w, 'v, 'e, 's, 't, 'p) templ) \<Rightarrow> ('w, 'e, 's, 't, 'p) reactor \<Rightarrow> bool"
  for N :: "('w, 'v) net" and T :: "nat \<Rightarrow> ('w, 'v, 'e, 's, 't, 'p) templ" where
  reactor_started: "rx_cap < 2 ^ 31 \<Longrightarrow> tx_cap < 2 ^ 31 \<Longrightarrow>
    reactor_init T rx_cap tx_cap 0 configs (Reactor (length configs) w) = Some r \<Longrightarrow> reactor_life N T r"
| reactor_looped: "reactor_life N T r \<Longrightarrow> reactor_loop N T r = Some r' \<Longrightarrow> reactor_life N T r'"
| reactor_waited: "reactor_life N T r \<Longrightarrow> reactor_life N T (r\<lparr>r_world := w\<rparr>)"

lemma reactor_init_fine:
  assumes "rx_cap < 2 ^ 31" "tx_cap < 2 ^ 31"
  shows "conns_fine T r \<Longrightarrow> \<not> r_stopping r \<Longrightarrow> reactor_init T rx_cap tx_cap i configs r = Some r' \<Longrightarrow>
     conns_fine T r' \<and> \<not> r_stopping r'"
proof (induction configs arbitrary: i r)
  case (Cons config configs)
  from Cons.prems(3) obtain r1 where r1: "init_connection T rx_cap tx_cap i config r = Some r1"
    and rest: "reactor_init T rx_cap tx_cap (Suc i) configs r1 = Some r'" by (auto simp: defined_iff)
  from r1 obtain c where c: "attach (T i) (address_of i) (Connection (T i) rx_cap tx_cap (cc_host config) (cc_port config)
      (cc_transport_config config) (cc_protocol_config config) (r_world r)) = Some c"
    and eq: "r1 = r\<lparr>r_connections := (r_connections r)[i := Some c], r_world := c_world c\<rparr>"
    by (auto simp: init_connection_def defined_iff)
  from life_attach [OF assms c] have "conn_fine (T i) False c" by (simp add: conn_fine_def)
  then have "pred_option (conn_fine (T j) False) ((r_connections r)[i := Some c] ! j)" if "j < length (r_connections r)" for j
    using that Cons.prems(1,2) by (cases "j = i") (auto simp: conns_fine_def)
  with Cons.prems(2) have "conns_fine T r1" "\<not> r_stopping r1" by (simp_all add: eq conns_fine_def)
  from Cons.IH [OF this rest] show ?case .
qed simp

lemma reactor_life_ok: "reactor_life N T r \<Longrightarrow> reactor_ok T r"
proof (induction rule: reactor_life.induct)
  case (reactor_started rx_cap tx_cap configs w r)
  have "conns_fine T (Reactor (length configs) w)" "\<not> r_stopping (Reactor (length configs) w)"
    by (simp_all add: conns_fine_def Reactor_def)
  from reactor_init_fine [OF reactor_started(1,2) this reactor_started(3)] show ?case by (simp add: reactor_ok_def)
next
  case (reactor_looped r r')
  then show ?case by (blast dest: reactor_loop_ok)
next
  case (reactor_waited r w)
  then show ?case by (simp add: reactor_ok_def)
qed

section \<open>What a turn leaves alone\<close>

text \<open>
  A turn keeps the identity of a connection, and leaves one that is done as it is (its world
  aside).
\<close>

definition settled ::
    "('w, 'v, 'e, 's, 't, 'p) templ \<Rightarrow> ('w, 'e, 's, 't, 'p) conn \<Rightarrow> ('w, 'e, 's, 't, 'p) conn \<Rightarrow> bool" where
  "settled T c c' \<longleftrightarrow> kept T c c' \<and> (conn_done c \<longrightarrow> (\<exists>w. c' = c\<lparr>c_world := w\<rparr>))"

lemma settled_refl: "settled T c c"
  unfolding settled_def by (metis kept_refl conn.surjective conn.update_convs(13))

lemma done_world [simp]: "conn_done (c\<lparr>c_world := w\<rparr>) = conn_done c"
  by (simp add: conn_done_def)

lemma settled_trans:
  assumes "settled T a b" "settled T b c"
  shows "settled T a c"
proof -
  have "kept T a c" using assms kept_trans unfolding settled_def by blast
  moreover have "\<exists>w. c = a\<lparr>c_world := w\<rparr>" if "conn_done a"
  proof -
    from assms(1) that obtain w where b: "b = a\<lparr>c_world := w\<rparr>" unfolding settled_def by blast
    with that have "conn_done b" by simp
    with assms(2) obtain w' where "c = b\<lparr>c_world := w'\<rparr>" unfolding settled_def by blast
    with b show ?thesis by auto
  qed
  ultimately show ?thesis by (simp add: settled_def)
qed

lemma stop_settled: "stop T (c\<lparr>c_world := w\<rparr>) = Some c' \<Longrightarrow> settled T c c'"
proof -
  assume s: "stop T (c\<lparr>c_world := w\<rparr>) = Some c'"
  have "kept T c c'" using keptD(4) [OF s] by simp
  moreover have "c' = c\<lparr>c_world := w\<rparr>" if d: "conn_done c"
  proof -
    have "stop_switch T (c\<lparr>c_world := w\<rparr>) = Some (c\<lparr>c_world := w\<rparr>)"
      using d by (auto simp: stop_switch_def conn_done_def)
    with s d show ?thesis by (simp add: stop_def steps_done)
  qed
  ultimately show ?thesis by (auto simp: settled_def)
qed

lemma heartbeat_settled:
  assumes "heartbeat T (c\<lparr>c_world := w\<rparr>) = Some c'"
  shows "settled T c c'"
proof -
  have "kept T c c'" using keptD(2) [OF assms] by simp
  moreover have "c' = c\<lparr>c_world := w\<rparr>" if "conn_done c"
  proof -
    have "c_state c \<noteq> S_protocol" using that by (auto simp: conn_done_def)
    with assms show ?thesis by (simp add: heartbeat_def split: option.splits)
  qed
  ultimately show ?thesis unfolding settled_def by blast
qed

lemma conn_turn_settled:
  assumes "conn_turn T stopping c c'"
  shows "settled T c c'"
  using assms
proof cases
  case turn_idle
  then show ?thesis by (simp add: settled_refl)
next
  case (turn_stop w)
  then show ?thesis by (blast intro: stop_settled)
next
  case (turn_event ev w)
  with keptD(1) [OF turn_event(2)] show ?thesis by (simp add: settled_def)
next
  case (turn_restart ev w c1)
  with kept_trans [OF keptD(1) [OF turn_restart(3)] keptD(3) [OF turn_restart(5)]] show ?thesis
    by (simp add: settled_def)
qed

lemma follows_settled_trans:
  "follows (\<lambda>i. settled (T i)) r r1 \<Longrightarrow> follows (\<lambda>i. settled (T i)) r1 r2 \<Longrightarrow> follows (\<lambda>i. settled (T i)) r r2"
  by (drule (1) follows_trans) (auto elim!: follows_mono intro: settled_trans)

lemma follows_flags [simp]:
  "follows R (r\<lparr>r_world := w\<rparr>) r' = follows R r r'" "follows R (r\<lparr>r_counter := k\<rparr>) r' = follows R r r'"
  "follows R (r\<lparr>r_stopping := b\<rparr>) r' = follows R r r'" "follows R (r\<lparr>r_beats := n\<rparr>) r' = follows R r r'"
  "follows R r (r'\<lparr>r_world := w\<rparr>) = follows R r r'" "follows R r (r'\<lparr>r_counter := k\<rparr>) = follows R r r'"
  "follows R r (stop_net N r') = follows R r r'" "follows R (stop_net N r) r' = follows R r r'"
  by (simp_all add: follows_def)

lemma each_settled:
  assumes "each f is r = Some r'" "distinct is" "\<And>i c w c'. f i (c\<lparr>c_world := w\<rparr>) = Some c' \<Longrightarrow> settled (T i) c c'"
  shows "follows (\<lambda>i. settled (T i)) r r'"
  using conjunct1 [OF each_follows [OF assms(1,2)]]
  by (rule follows_mono) (auto intro: assms(3) settled_refl split: if_splits)

lemma on_event_settled:
  assumes "on_event N T ev r = Some r'"
  shows "follows (\<lambda>i. settled (T i)) r r'"
proof -
  obtain kill w where k: "net_ev_signal N ev (r_world r) = (kill, w)" by (metis surj_pair)
  let ?r = "r\<lparr>r_world := w\<rparr>"
  from assms [unfolded on_event_def k Let_def prod.case bind_Some_iff] obtain r1 where
    r1: "(if kill then (if \<not> r_stopping ?r then stop_all T (?r\<lparr>r_stopping := True\<rparr>) else Some ?r) else conn_event N T ev ?r) = Some r1"
    and r': "r' = (if r_stopping r1 \<and> all_done r1 then stop_net N r1 else r1)"
    by auto
  have stop: "follows (\<lambda>i. settled (T i)) r r1" if "stop_all T (?r\<lparr>r_stopping := True\<rparr>) = Some r1"
    using each_settled [OF that [unfolded stop_all_def] _ stop_settled] by simp
  have conn: "follows (\<lambda>i. settled (T i)) r r1" if "conn_event N T ev ?r = Some r1"
    using conjunct1 [OF conn_event_follows [OF that]] by (simp add: follows_mono conn_turn_settled)
  have "follows (\<lambda>i. settled (T i)) r r1"
    using r1 stop conn by (auto simp: follows_refl settled_refl split: if_splits)
  then show ?thesis by (simp add: r')
qed

lemma on_events_settled: "on_events N T evs r = Some r' \<Longrightarrow> follows (\<lambda>i. settled (T i)) r r'"
proof (induction evs arbitrary: r)
  case (Cons ev evs)
  then show ?case by (auto simp: defined_iff intro: follows_settled_trans on_event_settled)
qed (simp add: follows_refl settled_refl)

lemma reactor_loop_settled:
  assumes "reactor_loop N T r = Some r'"
  shows "follows (\<lambda>i. settled (T i)) r r'"
proof -
  obtain nevents events w where p: "net_poll N (NUM_EVENTS r) (r_world r) = ((nevents, events), w)"
    by (metis surj_pair)
  let ?r = "if nevents < 0 then stop_net N (r\<lparr>r_world := w\<rparr>) else r\<lparr>r_world := w\<rparr>"
  from assms [unfolded reactor_loop_def p Let_def prod.case bind_Some_iff]
  obtain r1 where r1: "on_events N T (take (nat nevents) events) ?r = Some r1"
    and hb: "(if r_counter (r1\<lparr>r_counter := r_counter r1 + 1\<rparr>) AND 63 = 0
              then heartbeat_all T (r1\<lparr>r_counter := r_counter r1 + 1\<rparr>)
              else Some (r1\<lparr>r_counter := r_counter r1 + 1\<rparr>)) = Some r'" by auto
  have a: "follows (\<lambda>i. settled (T i)) r r1" using on_events_settled [OF r1] by (simp split: if_splits)
  have "follows (\<lambda>i. settled (T i)) r1 r'" if "heartbeat_all T (r1\<lparr>r_counter := r_counter r1 + 1\<rparr>) = Some r'"
    using each_settled [OF that [unfolded heartbeat_all_def] _ heartbeat_settled] by simp
  with a hb show ?thesis by (auto intro: follows_settled_trans split: if_splits)
qed

text \<open>Every connection is there, and carries its own address as its cookie.\<close>

definition addressed :: "nat \<Rightarrow> ('w, 'e, 's, 't, 'p) reactor \<Rightarrow> bool" where
  "addressed n r \<longleftrightarrow> (\<forall>i < n. \<exists>c. r_connections r ! i = Some c \<and> c_cookie c = address_of i)"

lemma reactor_init_addressed:
  "addressed i r \<Longrightarrow> length (r_connections r) = i + length configs \<Longrightarrow>
     reactor_init T rx_cap tx_cap i configs r = Some r' \<Longrightarrow>
     length (r_connections r') = length (r_connections r) \<and> addressed (length (r_connections r')) r'"
proof (induction configs arbitrary: i r)
  case (Cons config configs)
  from Cons.prems(3) obtain r1 where r1: "init_connection T rx_cap tx_cap i config r = Some r1"
    and rest: "reactor_init T rx_cap tx_cap (Suc i) configs r1 = Some r'" by (auto simp: defined_iff)
  from r1 obtain c where c: "attach (T i) (address_of i) (Connection (T i) rx_cap tx_cap (cc_host config) (cc_port config)
      (cc_transport_config config) (cc_protocol_config config) (r_world r)) = Some c"
    and eq: "r1 = r\<lparr>r_connections := (r_connections r)[i := Some c], r_world := c_world c\<rparr>"
    by (auto simp: init_connection_def defined_iff)
  from c have "enter_uninitialized (T i) ((Connection (T i) rx_cap tx_cap (cc_host config) (cc_port config)
      (cc_transport_config config) (cc_protocol_config config) (r_world r))\<lparr>c_cookie := address_of i\<rparr>) = Some c"
    by (simp add: attach_def Connection_def)
  from ensuresD [OF enter_uninitialized_kept this] have "c_cookie c = address_of i" by (simp add: kept_def)
  with Cons.prems(1,2) have "addressed (Suc i) r1"
    by (auto simp: eq addressed_def less_Suc_eq)
  from Cons.IH [OF this _ rest] Cons.prems(2) show ?case by (auto simp: eq)
qed simp

lemma reactor_life_addressed: "reactor_life N T r \<Longrightarrow> addressed (length (r_connections r)) r"
proof (induction rule: reactor_life.induct)
  case (reactor_started rx_cap tx_cap configs w r)
  from reactor_init_addressed [OF _ _ reactor_started(3)] show ?case by (simp add: addressed_def Reactor_def)
next
  case (reactor_looped r r')
  from reactor_loop_settled [OF reactor_looped(2)] have f: "follows (\<lambda>i. settled (T i)) r r'" .
  then have l: "length (r_connections r') = length (r_connections r)" by (simp add: follows_def)
  show ?case
    unfolding addressed_def l
  proof (intro allI impI)
    fix i assume i: "i < length (r_connections r)"
    with reactor_looped.IH obtain c where c: "r_connections r ! i = Some c" "c_cookie c = address_of i"
      by (auto simp: addressed_def)
    from follows_nth_fwd [OF f i c(1)] c(2) show "\<exists>c. r_connections r' ! i = Some c \<and> c_cookie c = address_of i"
      by (auto simp: settled_def kept_def)
  qed
next
  case (reactor_waited r w)
  then show ?case by (simp add: addressed_def)
qed

end
