(* ===== verification/Reactor_Props.thy ===== *)
theory Reactor_Props
  imports Reactor_Inv
begin

text \<open>
  The properties of the reactor: routing of events, the orderly shutdown, the fate of connections
  that are done, the rhythm of the heartbeat, and that a turn of the loop returns.
\<close>

section \<open>Totality\<close>

definition returning :: "('w, 'v, 'e, 's, 't, 'p) templ \<Rightarrow> bool" where
  "returning T \<longleftrightarrow> (\<forall>c. lifecycle T c \<longrightarrow> (\<forall>ev. \<exists>c'. handle_event T ev c = Some c') \<and> (\<exists>c'. heartbeat T c = Some c') \<and>
     (\<exists>c'. restart T c = Some c') \<and> (\<exists>c'. stop T c = Some c'))"

lemma plain_returning:
  assumes "live_net pot N" "live_protocol pot P"
  shows "returning (plain_templ N R P)"
  using live_plain.operations_return [of "(N, R, P, pot)"] assms by (simp add: returning_def)

definition present :: "('w, 'e, 's, 't, 'p) reactor \<Rightarrow> bool" where
  "present r \<longleftrightarrow> (\<forall>i < length (r_connections r). r_connections r ! i \<noteq> None)"

lemma present_follows: "follows R r r' \<Longrightarrow> present r \<Longrightarrow> present r'"
  unfolding present_def follows_def by (metis option.rel_sel)

lemma addressed_present: "addressed (length (r_connections r)) r \<Longrightarrow> present r"
  by (auto simp: addressed_def present_def)

lemma conns_fine_nth:
  "conns_fine T r \<Longrightarrow> i < length (r_connections r) \<Longrightarrow> r_connections r ! i = Some c \<Longrightarrow> lifecycle (T i) (c\<lparr>c_world := w\<rparr>)"
  unfolding conns_fine_def by (fastforce simp: conn_fine_def intro: life_world)

lemma each_returns:
  assumes "\<And>i c w. i < length (r_connections r) \<Longrightarrow> r_connections r ! i = Some c \<Longrightarrow> lifecycle (T i) (c\<lparr>c_world := w\<rparr>)"
    and "distinct is" "set is \<subseteq> {..<length (r_connections r)}"
    and f: "\<And>i c. lifecycle (T i) c \<Longrightarrow> \<exists>c'. f i c = Some c'"
  shows "\<exists>r'. each f is r = Some r'"
proof -
  have "\<exists>r'. each f is r0 = Some r'"
    if "length (r_connections r0) = length (r_connections r)"
      "\<forall>i \<in> set is. r_connections r0 ! i = r_connections r ! i" for r0
    using that assms(2,3)
  proof (induction "is" arbitrary: r0)
    case (Cons i js)
    have i: "i < length (r_connections r)" "r_connections r0 ! i = r_connections r ! i" using Cons.prems by auto
    have "on_conn i (f i) r0 \<noteq> None"
      using f [OF assms(1) [OF i(1)], of _ "r_world r0"] i(2) by (cases "r_connections r ! i") (force simp: on_conn_def)+
    then obtain r1 where r1: "on_conn i (f i) r0 = Some r1" by blast
    then have "length (r_connections r1) = length (r_connections r)"
      "\<forall>j \<in> set js. r_connections r1 ! j = r_connections r ! j"
      using Cons.prems by (auto simp: on_conn_def defined_iff nth_list_update split: option.splits)
    from Cons.IH [OF this] Cons.prems(3,4) r1 show ?case by auto
  qed simp
  then show ?thesis by simp
qed

definition valid_event :: "('w, 'v) net \<Rightarrow> nat \<Rightarrow> 'v \<Rightarrow> bool" where
  "valid_event N n ev \<longleftrightarrow> (\<forall>w. fst (net_ev_signal N ev w)) \<or> (0 < net_get_user_data N ev \<and> net_get_user_data N ev \<le> n)"

lemma conn_event_returns:
  assumes "conns_fine T r" "present r" "\<And>i. returning (T i)"
    and "0 < net_get_user_data N ev" "net_get_user_data N ev \<le> length (r_connections r)"
  shows "\<exists>r'. conn_event N T ev r = Some r'"
proof -
  let ?i = "net_get_user_data N ev - 1"
  have i: "?i < length (r_connections r)" using assms(4,5) by simp
  with assms(2) obtain c where c: "r_connections r ! ?i = Some c" by (auto simp: present_def)
  note l = conns_fine_nth [OF assms(1) i c, of "r_world r"]
  with assms(3) obtain c1 where c1: "handle_event (T ?i) ev (c\<lparr>c_world := r_world r\<rparr>) = Some c1"
    unfolding returning_def by blast
  have l1: "lifecycle (T ?i) c1" by (rule life_event [OF l c1])
  have "c1\<lparr>c_world := c_world c1\<rparr> = c1" by simp
  moreover from assms(3) l1 obtain c2 where "restart (T ?i) c1 = Some c2" unfolding returning_def by blast
  ultimately show ?thesis
    using assms(4,5) i c c1 by (auto simp: conn_event_def deref_def on_conn_def)
qed

lemma on_event_returns:
  assumes "conns_fine T r" "present r" "\<And>i. returning (T i)" "valid_event N (length (r_connections r)) ev"
  shows "\<exists>r'. on_event N T ev r = Some r'"
proof -
  obtain kill w where k: "net_ev_signal N ev (r_world r) = (kill, w)" by (metis surj_pair)
  let ?r = "r\<lparr>r_world := w\<rparr>"
  have stop: "\<exists>r'. stop_all T (?r\<lparr>r_stopping := True\<rparr>) = Some r'"
    unfolding stop_all_def
    by (rule each_returns [where T = T]) (use conns_fine_nth [OF assms(1)] assms(3) in \<open>auto simp: returning_def\<close>)
  have "\<exists>r1. (if kill then (if \<not> r_stopping ?r then stop_all T (?r\<lparr>r_stopping := True\<rparr>) else Some ?r) else conn_event N T ev ?r) = Some r1"
  proof (cases kill)
    case False
    with assms(4) k have "0 < net_get_user_data N ev" "net_get_user_data N ev \<le> length (r_connections ?r)"
      by (auto simp: valid_event_def dest: spec [of _ "r_world r"])
    moreover have "conns_fine T ?r" "present ?r" using assms(1,2) by (simp_all add: present_def)
    ultimately show ?thesis using False conn_event_returns [of T ?r N ev] assms(3) by simp
  qed (use stop in auto)
  then show ?thesis unfolding on_event_def k Let_def prod.case by fastforce
qed

lemma on_events_returns:
  assumes "\<And>i. returning (T i)"
  shows "reactor_ok T r \<Longrightarrow> present r \<Longrightarrow> list_all (valid_event N (length (r_connections r))) evs \<Longrightarrow>
     \<exists>r'. on_events N T evs r = Some r'"
proof (induction evs arbitrary: r)
  case (Cons ev evs)
  have fine: "conns_fine T r" using Cons.prems(1) by (simp add: reactor_ok_def)
  obtain r1 where r1: "on_event N T ev r = Some r1"
    using on_event_returns [OF fine Cons.prems(2) assms] Cons.prems(3) by auto
  note f = on_event_settled [OF r1]
  then have "length (r_connections r1) = length (r_connections r)" by (simp add: follows_def)
  with Cons.IH [of r1] on_event_ok [OF fine r1] present_follows [OF f Cons.prems(2)] Cons.prems(3) r1 show ?case by auto
qed simp

lemma loop_returns:
  assumes "reactor_life N T r" "\<And>i. returning (T i)"
    and "net_poll N (NUM_EVENTS r) (r_world r) = ((nevents, events), w)"
    and "list_all (valid_event N (length (r_connections r))) (take (nat nevents) events)"
  shows "\<exists>r'. reactor_loop N T r = Some r'"
proof -
  let ?r = "if nevents < 0 then stop_net N (r\<lparr>r_world := w\<rparr>) else r\<lparr>r_world := w\<rparr>"
  have ok: "reactor_ok T ?r" using reactor_life_ok [OF assms(1)] by (simp add: reactor_ok_def)
  have pr: "present ?r" using addressed_present [OF reactor_life_addressed [OF assms(1)]] by (simp add: present_def)
  have "length (r_connections ?r) = length (r_connections r)" by simp
  then obtain r1 where r1: "on_events N T (take (nat nevents) events) ?r = Some r1"
    using on_events_returns [OF assms(2) ok pr, of N] assms(4) by fastforce
  from on_events_ok [OF ok r1] have "conns_fine T r1" by (simp add: reactor_ok_def)
  then have "\<exists>r'. heartbeat_all T (r1\<lparr>r_counter := r_counter r1 + 1\<rparr>) = Some r'"
    unfolding heartbeat_all_def
    by (intro each_returns [where T = T]) (use conns_fine_nth assms(2) in \<open>auto simp: returning_def\<close>)
  with r1 show ?thesis by (auto simp: reactor_loop_def assms(3) Let_def)
qed

section \<open>The heartbeat\<close>

fun turns ::
    "('w, 'v) net \<Rightarrow> (nat \<Rightarrow> ('w, 'v, 'e, 's, 't, 'p) templ) \<Rightarrow> nat \<Rightarrow> ('w, 'e, 's, 't, 'p) reactor \<Rightarrow>
     ('w, 'e, 's, 't, 'p) reactor option" where
  "turns N T 0 r = Some r"
| "turns N T (Suc n) r = do { r \<leftarrow> reactor_loop N T r; turns N T n r }"

lemma due_iff: "(x :: u64) AND 63 = 0 \<longleftrightarrow> unat x mod 64 = 0"
proof -
  have "(63 :: u64) = mask 6" by (simp add: mask_eq_exp_minus_1)
  then have "x AND 63 = take_bit 6 x" by (simp add: take_bit_eq_mask)
  moreover have "take_bit 6 x = 0 \<longleftrightarrow> unat (take_bit 6 x) = 0" by (simp add: unat_eq_0)
  moreover have "unat (take_bit 6 x) = unat x mod 64"
    by (subst unsigned_take_bit_eq) (simp add: take_bit_eq_mod)
  ultimately show ?thesis by metis
qed

lemma unat_plus_mod_64: "unat (x + of_nat k :: u64) mod 64 = (unat x + k) mod 64"
proof -
  have "unat (x + of_nat k :: u64) = (unat x + k) mod 2 ^ 64"
    by (simp add: unat_word_ariths unat_of_nat take_bit_eq_mod mod_simps)
  then show ?thesis by (simp add: mod_mod_cancel)
qed

lemma turns_beats:
  "reactor_ok T r \<Longrightarrow> turns N T n r = Some r' \<Longrightarrow>
     r_counter r' = r_counter r + of_nat n \<and>
     r_beats r' = r_beats r + card {k. k < n \<and> (unat (r_counter r) + Suc k) mod 64 = 0}"
proof (induction n arbitrary: r)
  case (Suc n)
  from Suc.prems(2) obtain r1 where r1: "reactor_loop N T r = Some r1" "turns N T n r1 = Some r'"
    by (auto simp: defined_iff)
  note a = reactor_loop_ok [OF Suc.prems(1) r1(1)]
  have due: "(r_counter r + 1) AND 63 = 0 \<longleftrightarrow> (unat (r_counter r) + 1) mod 64 = 0"
    using unat_plus_mod_64 [of "r_counter r" 1] by (simp add: due_iff)
  have eq: "(unat (r_counter r1) + Suc k) mod 64 = (unat (r_counter r) + Suc (Suc k)) mod 64" for k
  proof -
    have "unat (r_counter r1) mod 64 = (unat (r_counter r) + 1) mod 64"
      using a unat_plus_mod_64 [of "r_counter r" 1] by simp
    from mod_add_cong [OF this refl, of "Suc k"] show ?thesis by simp
  qed
  let ?A = "{k. k < n \<and> (unat (r_counter r) + Suc (Suc k)) mod 64 = 0}"
  have "{k. k < Suc n \<and> (unat (r_counter r) + Suc k) mod 64 = 0} =
      (if (unat (r_counter r) + 1) mod 64 = 0 then {0} else {}) \<union> Suc ` ?A"
    by (auto simp: image_iff less_Suc_eq_0_disj)
  moreover have "card ((if (unat (r_counter r) + 1) mod 64 = 0 then {0} else {}) \<union> Suc ` ?A) =
      (if (unat (r_counter r) + 1) mod 64 = 0 then 1 else 0) + card ?A"
    by (subst card_Un_disjoint) (auto simp: card_image)
  moreover have "{k. k < n \<and> (unat (r_counter r1) + Suc k) mod 64 = 0} = ?A" by (simp only: eq)
  moreover have "r_beats r1 = r_beats r + (if (unat (r_counter r) + 1) mod 64 = 0 then 1 else 0)"
    "r_counter r1 = r_counter r + 1" using a by (simp_all only: due)
  ultimately show ?case
    using Suc.IH [OF conjunct1 [OF a] r1(2)] by (simp only: of_nat_Suc) (simp add: algebra_simps)
qed simp

lemma sum_mod_zero:
  fixes m k n :: nat
  assumes "m < n" "k < n"
  shows "(m + Suc k) mod n = 0 \<longleftrightarrow> k = n - 1 - m"
proof (cases "m + Suc k < n")
  case False
  with assms have "m + Suc k - n < n" by linarith
  with False have "(m + Suc k) mod n = m + Suc k - n" by (simp add: le_mod_geq)
  with False assms show ?thesis by linarith
qed (use assms in auto)

lemma one_in_64: "card {k. k < 64 \<and> (a + Suc k) mod 64 = 0} = (1 :: nat)"
proof -
  define m where "m = a mod 64"
  have m: "m < 64" by (simp add: m_def)
  have "(a + Suc k) mod 64 = (m + Suc k) mod 64" for k unfolding m_def by (rule mod_add_left_eq [symmetric])
  then have "{k. k < 64 \<and> (a + Suc k) mod 64 = 0} = {k. k < 64 \<and> k = 63 - m}"
    by (simp only: sum_mod_zero [OF m] cong: conj_cong) simp
  also have "\<dots> = {63 - m}" by auto
  finally show ?thesis by simp
qed

section \<open>Stopping\<close>

lemma stop_all_done:
  assumes "\<And>i. t_shutdown_step (transport_of (T i)) = None" "\<And>i. p_on_shutdown (protocol_of (T i)) = None"
    and "\<And>c. Some c \<in> set (r_connections r) \<Longrightarrow> c_state c \<notin> {S_close_protocol, S_drain_protocol}"
    and "stop_all T r = Some r'"
  shows "all_done r' \<and> r_stops r' = r_stops r \<and> r_stopping r' = r_stopping r"
proof -
  let ?n = "length (r_connections r)"
  from each_follows [OF assms(4) [unfolded stop_all_def]]
  have f: "follows (\<lambda>j c c'. if j \<in> set [0..<?n] then \<exists>w. stop (T j) (c\<lparr>c_world := w\<rparr>) = Some c' else c' = c) r r'"
    and s: "same_flags r r'" by simp_all
  have "conn_done c'" if i: "i < ?n" and c': "r_connections r' ! i = Some c'" for i c'
  proof -
    from follows_nth [OF f i c'] i obtain c w where c: "r_connections r ! i = Some c"
      and w: "stop (T i) (c\<lparr>c_world := w\<rparr>) = Some c'" by auto
    from assms(3) [of c] c i have st: "c_state c \<notin> {S_close_protocol, S_drain_protocol}"
      by (metis nth_mem)
    show ?thesis
    proof (cases "conn_done c")
      case True
      with stop_settled [OF w] obtain w' where "c' = c\<lparr>c_world := w'\<rparr>" unfolding settled_def by blast
      with True show ?thesis by simp
    next
      case False
      with st have "c_state (c\<lparr>c_world := w\<rparr>) \<in> {S_uninitialized, S_in_progress, S_transport, S_protocol, S_close_transport}"
        by (cases "c_state c") (auto simp: conn_done_def)
      from stop_plain [OF assms(1,2) this w] show ?thesis by (simp add: conn_done_def)
    qed
  qed
  moreover have "length (r_connections r') = ?n" using f by (simp add: follows_def)
  ultimately show ?thesis using s by (auto simp: all_done_def list_all_length same_flags_def split: option.split)
qed

section \<open>A sample reactor\<close>

text \<open>
  One echo connection over the scripted backend of \<open>Sample_Env\<close>; \<open>polled\<close> is what the next
  poll returns.  An event that is neither readable nor writeable is the stop signal.
\<close>

definition polled_net :: "sample_event list \<Rightarrow> (script, sample_event) net" where
  "polled_net evs = sample_net\<lparr>net_poll := (\<lambda>n w. ((int (length evs), evs), w)),
     net_ev_signal := (\<lambda>ev w. (\<not> se_read ev \<and> \<not> se_write ev, w))\<rparr>"

definition sample_Ts :: "sample_event list \<Rightarrow> nat \<Rightarrow> (script, sample_event, plain_endpoint, unit, unit, unit) templ" where
  "sample_Ts evs i = plain_templ (polled_net evs) sample_resolver Echo"

definition sample_signal :: sample_event where
  "sample_signal = \<lparr>se_close = False, se_error = False, se_read = False, se_write = False\<rparr>"

definition sample_config :: "(unit, unit) connection_config" where
  "sample_config = \<lparr>cc_host = ''h'', cc_port = 80, cc_transport_config = (), cc_protocol_config = ()\<rparr>"

definition sample_started :: "sample_event list \<Rightarrow> (script, plain_endpoint, unit, unit, unit) reactor option" where
  "sample_started evs = reactor_init (sample_Ts evs) 8 8 0
     [sample_config] (Reactor (length [sample_config]) \<lparr>sc_in = [1, 2] # [], sc_out = []\<rparr>)"

definition sample_reactor :: "sample_event list \<Rightarrow> nat \<Rightarrow> (script, plain_endpoint, unit, unit, unit) reactor" where
  "sample_reactor evs n = the (sample_started evs \<bind> turns (polled_net evs) (sample_Ts evs) n)"

lemma turns_life: "reactor_life N T r \<Longrightarrow> turns N T n r = Some r' \<Longrightarrow> reactor_life N T r'"
  by (induction n arbitrary: r) (auto simp: defined_iff intro: reactor_looped)

lemma sample_reactor_life:
  assumes "sample_started evs \<bind> turns (polled_net evs) (sample_Ts evs) n \<noteq> None"
  shows "reactor_life (polled_net evs) (sample_Ts evs) (sample_reactor evs n)"
proof -
  from assms obtain r0 r where r: "sample_started evs = Some r0" "turns (polled_net evs) (sample_Ts evs) n r0 = Some r"
    by (auto simp del: not_None_eq simp: not_None_eq)
  have "reactor_life (polled_net evs) (sample_Ts evs) r0"
    by (rule reactor_started [OF _ _ r(1) [unfolded sample_started_def]]) simp_all
  from turns_life [OF this r(2)] r show ?thesis by (simp add: sample_reactor_def)
qed

lemma sample_runs:
  "sample_started [] \<bind> turns (polled_net []) (sample_Ts []) 0 \<noteq> None"
  "sample_started [sample_signal] \<bind> turns (polled_net [sample_signal]) (sample_Ts [sample_signal]) 0 \<noteq> None"
  "sample_started [sample_signal] \<bind> turns (polled_net [sample_signal]) (sample_Ts [sample_signal]) 1 \<noteq> None"
  "sample_started [sample_rw] \<bind> turns (polled_net [sample_rw]) (sample_Ts [sample_rw]) 1 \<noteq> None"
  by code_simp+

lemmas sample_reactors = sample_runs [THEN sample_reactor_life]

lemma sample_reactor_shape:
  "length (r_connections (sample_reactor [] 0)) = 1" "map (map_option c_state) (r_connections (sample_reactor [sample_rw] 1)) = [Some S_protocol]"
  "r_stopping (sample_reactor [sample_signal] 1) \<and> all_done (sample_reactor [sample_signal] 1)"
  "length (r_connections (sample_reactor [sample_signal] 1)) = 1"
  by code_simp+

section \<open>Properties\<close>

text \<open>
  C6: events reach their connection.  In every state the event loop can be in, each connection
  is in a state its own operations lead to, its cookie is its own address, and dereferencing that
  address yields the connection itself: an event it subscribed to is handed to it and to no other.
\<close>

theorem reactor_routing:
  assumes "reactor_life N T r" "i < length (r_connections r)"
  shows "\<exists>c. r_connections r ! i = Some c \<and> lifecycle (T i) c \<and> c_cookie c = address_of i \<and>
     deref (c_cookie c) r = Some (i, c)"
proof -
  from reactor_life_addressed [OF assms(1)] assms(2) obtain c where
    c: "r_connections r ! i = Some c" "c_cookie c = address_of i" by (auto simp: addressed_def)
  from reactor_life_ok [OF assms(1)] have fine: "conns_fine T r" by (simp add: reactor_ok_def)
  from fine assms(2) c(1) have "lifecycle (T i) c" unfolding conns_fine_def by (fastforce simp: conn_fine_def)
  with c assms(2) show ?thesis by (simp add: deref_def address_of_def)
qed

theorem reactor_routing_witness:
  "\<exists>c. r_connections (sample_reactor [] 0) ! 0 = Some c \<and> lifecycle (sample_Ts [] 0) c \<and> c_cookie c = address_of 0 \<and>
     deref (c_cookie c) (sample_reactor [] 0) = Some (0, c)"
  by (rule reactor_routing [OF sample_reactors(1)]) (simp add: sample_reactor_shape)

text \<open>
  C5: orderly shutdown.  Once the reactor is stopping, every connection is on its way out (it is
  closing, draining or done, and is never restarted), and as soon as all of them are done
  \<open>Net::stop\<close> has been called, so the loop ends.
\<close>

theorem reactor_shutdown:
  assumes "reactor_life N T r" "r_stopping r"
  shows "(\<forall>c. Some c \<in> set (r_connections r) \<longrightarrow>
       c_state c \<in> {S_close_protocol, S_drain_protocol, S_close_transport, S_closed, S_error}) \<and>
     (all_done r \<longrightarrow> 0 < r_stops r)"
proof -
  from reactor_life_ok [OF assms(1)] have fine: "conns_fine T r" and st: "r_stopping r \<and> all_done r \<longrightarrow> 0 < r_stops r"
    by (simp_all add: reactor_ok_def)
  have "c_state c \<in> leaving" if "Some c \<in> set (r_connections r)" for c
    using that fine assms(2) unfolding conns_fine_def in_set_conv_nth by (fastforce simp: conn_fine_def)
  with st assms(2) show ?thesis by (auto simp: leaving_def)
qed

theorem reactor_shutdown_witness:
  "all_done (sample_reactor [sample_signal] 1) \<and> 0 < r_stops (sample_reactor [sample_signal] 1)"
  using reactor_shutdown [OF sample_reactors(3)] sample_reactor_shape(3) by simp





text \<open>
  C20: one heartbeat in 64 turns.  Any 64 consecutive turns of the loop contain exactly one
  heartbeat, also when the 64-bit counter wraps around; the counter counts turns, not time.
\<close>

theorem reactor_heartbeat:
  assumes "reactor_life N T r" "turns N T 64 r = Some r'"
  shows "r_beats r' = r_beats r + 1 \<and> r_counter r' = r_counter r + 64"
  using turns_beats [OF reactor_life_ok [OF assms(1)] assms(2)] one_in_64 [of "unat (r_counter r)"] by simp

theorem reactor_heartbeat_witness:
  "\<exists>r'. turns (polled_net []) (sample_Ts []) 64 (sample_reactor [] 0) = Some r' \<and> r_beats r' = 1"
proof -
  have n: "turns (polled_net []) (sample_Ts []) 64 (sample_reactor [] 0) \<noteq> None" by code_simp
  have z: "r_beats (sample_reactor [] 0) = 0" by code_simp
  from n obtain r' where r': "turns (polled_net []) (sample_Ts []) 64 (sample_reactor [] 0) = Some r'" by blast
  from reactor_heartbeat [OF sample_reactors(1) r'] z r' show ?thesis by simp
qed

text \<open>
  C18: a turn of the loop returns.  Over plain connections with a live backend and total sessions,
  a turn whose events are stop signals or carry the address of a connection has a defined result
  and does not run for ever.
\<close>

theorem reactor_loop_returns:
  assumes "reactor_life N T r" "live_net pot N"
    and "\<And>i. \<exists>R P. T i = plain_templ N R P \<and> live_protocol pot P"
    and "net_poll N (NUM_EVENTS r) (r_world r) = ((nevents, events), w)"
    and "list_all (valid_event N (length (r_connections r))) (take (nat nevents) events)"
  shows "\<exists>r'. reactor_loop N T r = Some r'"
proof (rule loop_returns [OF assms(1) _ assms(4,5)])
  fix i
  from assms(3) obtain R P where "T i = plain_templ N R P" "live_protocol pot P" by blast
  with plain_returning [OF assms(2)] show "returning (T i)" by simp
qed

lemma polled_net_live: "live_net sample_pot (polled_net evs)"
  using sample_net_live by (simp add: live_net_def net_wf_def quiet_net_def polled_net_def)

theorem reactor_loop_returns_witness:
  "\<exists>r'. reactor_loop (polled_net [sample_rw]) (sample_Ts [sample_rw]) (sample_reactor [sample_rw] 1) = Some r'"
proof (rule reactor_loop_returns [OF sample_reactors(4) polled_net_live])
  fix i show "\<exists>R P. sample_Ts [sample_rw] i = plain_templ (polled_net [sample_rw]) R P \<and> live_protocol sample_pot P"
    using echo_live by (auto simp: sample_Ts_def)
  have "length (r_connections (sample_reactor [sample_rw] 1)) = 1"
    using arg_cong [OF sample_reactor_shape(2), of length] by simp
  then show "list_all (valid_event (polled_net [sample_rw]) (length (r_connections (sample_reactor [sample_rw] 1))))
      (take (nat 1) [sample_rw])"
    by (simp add: valid_event_def polled_net_def sample_net_def)
qed (simp add: polled_net_def)

end
