(* ===== verification/Epoll_Props.thy ===== *)
theory Epoll_Props
  imports Epoll Reactor_Props
begin

text \<open>
  The properties of the epoll backend: what a subscription leaves in the interest list, which events
  are taken for the stop signal, and that the stop signal ends the event loop.
\<close>

section \<open>Helper lemmas\<close>

lemma heartbeat_done: "conn_done c \<Longrightarrow> heartbeat T c = Some c"
  by (auto simp: heartbeat_def conn_done_def split: option.split)

lemma each_heartbeat_done:
  "all_done r \<Longrightarrow> set is \<subseteq> {..<length (r_connections r)} \<Longrightarrow>
     \<exists>r'. each (\<lambda>i. heartbeat (T i)) is r = Some r' \<and> all_done r' \<and> r_world r' = r_world r"
proof (induction "is" arbitrary: r)
  case (Cons i js)
  then have i: "i < length (r_connections r)" by simp
  have "\<exists>r1. on_conn i (heartbeat (T i)) r = Some r1 \<and> all_done r1 \<and> r_world r1 = r_world r \<and>
      length (r_connections r1) = length (r_connections r)"
  proof (cases "r_connections r ! i")
    case (Some c)
    have all: "list_all (\<lambda>opt. case opt of None \<Rightarrow> True | Some c \<Rightarrow> conn_done c) (r_connections r)"
      using Cons.prems(1) by (simp add: all_done_def)
    with Some i have "conn_done c" unfolding list_all_length by fastforce
    then have "conn_done (c\<lparr>c_world := r_world r\<rparr>)" by simp
    note hb = heartbeat_done [OF this, of "T i"]
    have "list_all (\<lambda>opt. case opt of None \<Rightarrow> True | Some c \<Rightarrow> conn_done c) ((r_connections r)[i := Some (c\<lparr>c_world := r_world r\<rparr>)])"
      using all \<open>conn_done c\<close> by (auto simp: list_all_iff dest!: subsetD [OF set_update_subset_insert])
    with Some hb show ?thesis by (simp add: on_conn_def all_done_def)
  qed (use Cons.prems in \<open>simp add: on_conn_def\<close>)
  then obtain r1 where r1: "on_conn i (heartbeat (T i)) r = Some r1" "all_done r1" "r_world r1 = r_world r"
    "length (r_connections r1) = length (r_connections r)" by blast
  from Cons.IH [OF r1(2)] Cons.prems(2) r1 show ?case by auto
qed simp

lemma epoll_stop_dead [simp]:
  "\<not> ep_alive (epoll_stop K w)" "ep_signal_fd (epoll_stop K w) = -1" "ep_event_fd (epoll_stop K w) = -1"
  by (simp_all add: epoll_stop_def syscall_def case_prod_unfold Let_def)

lemma signal_fd_word:
  assumes "0 \<le> f" "f < 2 ^ 31"
  shows "data_fd (ucast (word_of_int f :: u32)) = f"
proof -
  have "sint (word_of_int f :: 32 word) = f" using assms by (simp add: signed_of_int signed_take_bit_int_eq_self)
  moreover have "(ucast (ucast x :: u64) :: u32) = x" for x :: u32 by (rule bit_word_eqI) (simp add: bit_simps)
  ultimately show ?thesis by (simp add: data_fd_def)
qed

text \<open>
  The loop of the backend keeps what one turn keeps, and returns only when the backend was stopped; so a
  whole run of a reactor over epoll ends in a state that the properties of the reactor speak about.
\<close>

lemma epoll_run_inv:
  assumes turn: "\<And>r r'. I r \<Longrightarrow> loop r = Some r' \<Longrightarrow> I r'"
    and r: "epoll_run alive loop r = Some r'" "I r"
  shows "I r' \<and> \<not> alive r'"
proof -
  let ?P = "\<lambda>alive' loop' r r'. alive' = alive \<longrightarrow> loop' = loop \<longrightarrow> I r \<longrightarrow> I r' \<and> \<not> alive r'"
  have "?P alive loop r r'"
  proof (rule epoll_run.raw_induct [where P = ?P, OF _ r(1)], intro impI, goal_cases step)
    case (step rec alive' loop' r r')
    show ?case
    proof (cases "alive r")
      case True
      with step(2-4) obtain r1 where r1: "loop r = Some r1" "rec alive loop r1 = Some r'" by (auto simp: bind_Some_iff)
      from step(1) [OF r1(2)] turn [OF step(5) r1(1)] show ?thesis by simp
    qed (use step(2-5) in simp)
  qed
  with r(2) show ?thesis by blast
qed

lemma epoll_reactor_run:
  assumes "rx_cap < 2 ^ 31" "tx_cap < 2 ^ 31"
    and "reactor_run (epoll_init K) (epoll_run (\<lambda>r. ep_alive (r_world r))) (Epoll K) T rx_cap tx_cap () configs
           (Reactor (length configs) w) = Some (Inr (), r')"
  shows "reactor_life (Epoll K) T r' \<and> \<not> ep_alive (r_world r')"
proof -
  have w: "r_world (Reactor n w) = w" for n by (simp add: Reactor_def)
  obtain res w1 where n: "epoll_init K () w = (res, w1)" by fastforce
  obtain r1 where
    i: "reactor_init T rx_cap tx_cap 0 configs ((Reactor (length configs) w)\<lparr>r_world := w1\<rparr>) = Some r1"
    and l: "epoll_run (\<lambda>r. ep_alive (r_world r)) (reactor_loop (Epoll K) T) r1 = Some r'"
    using assms(3) n by (cases res) (simp_all add: reactor_run_def bind_Some_iff w, blast)
  have e: "(Reactor (length configs) w)\<lparr>r_world := w1\<rparr> = Reactor (length configs) w1" by (simp add: Reactor_def)
  have started: "reactor_life (Epoll K) T r1" by (rule reactor_started [OF assms(1,2) i [unfolded e]])
  show ?thesis
    by (rule epoll_run_inv [where I = "reactor_life (Epoll K) T", OF _ l started]) (rule reactor_looped)
qed

section \<open>A sample kernel\<close>

text \<open>An interest list and the events that are ready; no call fails, and connecting takes time.\<close>

record sample_kernel_state =
  ks_reg :: "fd \<Rightarrow> epoll_event option"
  ks_ready :: "epoll_event list"

fun sample_ctl :: "fd \<Rightarrow> epoll_op \<Rightarrow> fd \<Rightarrow> epoll_event \<Rightarrow> sample_kernel_state \<Rightarrow> (int \<times> errno) \<times> sample_kernel_state" where
  "sample_ctl e EPOLL_CTL_ADD f ev k = ((0, EAGAIN), k\<lparr>ks_reg := (ks_reg k)(f := Some ev)\<rparr>)"
| "sample_ctl e EPOLL_CTL_DEL f ev k = ((0, EAGAIN), k\<lparr>ks_reg := (ks_reg k)(f := None)\<rparr>)"
| "sample_ctl e EPOLL_CTL_MOD f ev k =
     (case ks_reg k f of None \<Rightarrow> ((-1, ENOENT), k) | Some _ \<Rightarrow> ((0, EAGAIN), k\<lparr>ks_reg := (ks_reg k)(f := Some ev)\<rparr>))"

definition sample_kernel :: "sample_kernel_state kernel" where
  "sample_kernel =
     \<lparr>sys_socket = (\<lambda>_ _ _ k. ((3, EAGAIN), k)), sys_ioctl = (\<lambda>_ _ _ k. ((0, EAGAIN), k)),
      sys_connect = (\<lambda>_ _ _ k. ((-1, EINPROGRESS), k)), sys_close = (\<lambda>f k. (0, k\<lparr>ks_reg := (ks_reg k)(f := None)\<rparr>)),
      sys_getsockopt = (\<lambda>_ _ _ k. ((0, 0), k)), sys_read = (\<lambda>_ _ k. ((-1, EAGAIN, []), k)),
      sys_write = (\<lambda>_ bs k. ((int (length bs), EAGAIN), k)), sys_epoll_create1 = (\<lambda>k. (8, k)),
      sys_eventfd = (\<lambda>k. (9, k)), sys_epoll_ctl = sample_ctl,
      sys_epoll_wait = (\<lambda>_ n _ k. ((int (length (ks_ready k)), ks_ready k), k))\<rparr>"

definition sample_epoll_env :: "sample_kernel_state epoll_env" where
  "sample_epoll_env = (sample_kernel, \<lambda>k e. ks_reg k, \<lambda>k e f. True)"

lemma sample_kernel_ok: "kernel_ok sample_epoll_env"
  by (auto simp: kernel_ok_def sample_epoll_env_def sample_kernel_def mod_ok.simps add_ok.simps del_ok.simps close_ok.simps
      fun_upd_def split: option.splits)

definition kill_event :: epoll_event where
  "kill_event = \<lparr>ev_events = EPOLLIN, ev_data = 9\<rparr>"

definition sample_epoll :: "epoll_event list \<Rightarrow> sample_kernel_state epoll" where
  "sample_epoll evs = snd (epoll_init sample_kernel () (new_epoll \<lparr>ks_reg = (\<lambda>_. None), ks_ready = evs\<rparr>))"

text \<open>A session that takes everything, over the plain transport.\<close>

definition Sink :: "('w, unit, unit) protocol" where
  "Sink = \<lparr>p_session = (\<lambda>_ _ _. ()), p_on_data = (\<lambda>s rx tx w. Some (P_ok, s, clear rx, tx, w)), p_on_connect = None,
     p_on_shutdown = None, p_heartbeat = None, p_teardown = None\<rparr>"

definition one_address :: "'w resolver" where
  "one_address =
     \<lparr>getaddrinfo = (\<lambda>_ _ _ w. ((0, [\<lparr>ai_family = 2, ai_socktype = 1, ai_protocol = 6, ai_addr = [], ai_addrlen = 0\<rparr>]), w)),
      freeaddrinfo = (\<lambda>_ w. w)\<rparr>"

definition epoll_Ts :: "nat \<Rightarrow> (sample_kernel_state epoll, epoll_event, plain_endpoint, unit, unit, unit) templ" where
  "epoll_Ts i = plain_templ (Epoll sample_kernel) one_address Sink"

definition epoll_reactor :: "(sample_kernel_state epoll, plain_endpoint, unit, unit, unit) reactor" where
  "epoll_reactor = the (reactor_init epoll_Ts 8 8 0 [sample_config] (Reactor 1 (sample_epoll [kill_event])))"

section \<open>Properties\<close>

text \<open>
  C24: a subscription registers its interest.  Whether the descriptor was in the interest list or
  not, \<open>subscribe\<close> leaves an entry with exactly the requested directions, edge triggered, with the
  pointer of the connection; the entries of the other descriptors are unchanged.
\<close>

theorem epoll_subscribe_registers:
  assumes "kernel_ok (K, reg, usable)" "usable (ep_kernel w) (ep_event_fd w) f" "p < 2 ^ 64"
  shows "epoll_entry (K, reg, usable) (net_subscribe (Epoll K) p f r v w) = (epoll_entry (K, reg, usable) w)(f \<mapsto> interest p r v) \<and>
     epoll_ev_readable (interest p r v) = r \<and> epoll_ev_writeable (interest p r v) = v \<and>
     epoll_get_user_data (interest p r v) = p"
  using epoll_subscribe_entry [OF assms(1,2)] interest_bits assms(3) by (simp add: Epoll_def)

theorem epoll_subscribe_registers_witness:
  "epoll_entry sample_epoll_env (net_subscribe (Epoll sample_kernel) 1 3 True False (sample_epoll [])) 3 =
     Some (interest 1 True False)"
  using epoll_subscribe_registers [OF sample_kernel_ok [unfolded sample_epoll_env_def], where w = "sample_epoll []" and f = 3 and p = 1 and r = True and v = False]
  by (simp add: sample_epoll_env_def)

text \<open>
  The stop signal is recognised.  The event that \<open>init\<close> registers for the event descriptor is
  taken for the stop signal; an event of a connection is taken for it exactly when it is readable
  and the low 32 bits of the connection's address, read as an \<open>int\<close>, equal that descriptor.
\<close>

theorem epoll_signal_recognised:
  assumes "0 \<le> ep_signal_fd w" "ep_signal_fd w < 2 ^ 31"
  shows "fst (epoll_ev_signal K \<lparr>ev_events = EPOLLIN, ev_data = ucast (word_of_int (ep_signal_fd w) :: u32)\<rparr> w) \<and>
     (\<forall>p es. fst (epoll_ev_signal K \<lparr>ev_events = es, ev_data = of_nat p\<rparr> w) \<longleftrightarrow>
        es AND EPOLLIN \<noteq> 0 \<and> sint (of_nat p :: 32 word) = ep_signal_fd w)"
proof -
  have "(ucast (of_nat p :: u64) :: 32 word) = of_nat p" for p
    by (rule bit_word_eqI) (simp add: bit_simps)
  then show ?thesis
    using signal_fd_word [OF assms] by (auto simp: epoll_ev_signal_def EPOLLIN_def) (simp_all add: data_fd_def)
qed

theorem epoll_signal_recognised_witness:
  "fst (epoll_ev_signal sample_kernel \<lparr>ev_events = EPOLLIN, ev_data = ucast (word_of_int 9 :: u32)\<rparr> (sample_epoll []))"
proof -
  have "ep_signal_fd (sample_epoll []) = 9" by code_simp
  with epoll_signal_recognised [of "sample_epoll []" sample_kernel] show ?thesis by simp
qed



end
