(* ===== verification/Fstack.thy ===== *)
theory Fstack
  imports Backend
begin

text \<open>
  \<^verbatim>\<open>include/manet/net/fstack.hpp\<close> and \<^verbatim>\<open>src/manet/net/fstack.cc\<close>: the backend on F-Stack, whose
  event queue is the kqueue of FreeBSD.  The static member \<open>_kq\<close> and the stack make up the world;
  the functions of F-Stack the code calls are the record \<open>fstack_api\<close>.
\<close>

section \<open>F-Stack\<close>

datatype kfilter = EVFILT_READ | EVFILT_WRITE | EVFILT_USER | EVFILT_other int

definition EV_ADD :: u16 where "EV_ADD = 0x0001"
definition EV_DELETE :: u16 where "EV_DELETE = 0x0002"
definition EV_ENABLE :: u16 where "EV_ENABLE = 0x0004"
definition EV_CLEAR :: u16 where "EV_CLEAR = 0x0020"
definition EV_ERROR :: u16 where "EV_ERROR = 0x4000"
definition EV_EOF :: u16 where "EV_EOF = 0x8000"
definition NOTE_TRIGGER :: u32 where "NOTE_TRIGGER = 0x01000000"

definition KILL_IDENT :: int where "KILL_IDENT = 1"

record kevent =
  kev_ident :: int
  kev_filter :: kfilter
  kev_flags :: u16
  kev_fflags :: u32
  kev_udata :: ptr

definition EV_SET :: "int \<Rightarrow> kfilter \<Rightarrow> u16 \<Rightarrow> u32 \<Rightarrow> ptr \<Rightarrow> kevent" where
  "EV_SET ident filt flags fflags udata =
     \<lparr>kev_ident = ident, kev_filter = filt, kev_flags = flags, kev_fflags = fflags, kev_udata = udata\<rparr>"

text \<open>
  \<open>ff_kevent kq changes n timeout\<close>: applies the changes and returns at most \<open>n\<close> events; the timeout
  is in nanoseconds.
\<close>

record 'k fstack_api =
  ff_init :: "string list \<Rightarrow> 'k \<Rightarrow> 'k"
  ff_socket :: "int \<Rightarrow> int \<Rightarrow> int \<Rightarrow> 'k \<Rightarrow> (fd \<times> errno) \<times> 'k"
  ff_ioctl :: "fd \<Rightarrow> int \<Rightarrow> int \<Rightarrow> 'k \<Rightarrow> (int \<times> errno) \<times> 'k"
  ff_connect :: "fd \<Rightarrow> byte list \<Rightarrow> nat \<Rightarrow> 'k \<Rightarrow> (int \<times> errno) \<times> 'k"
  ff_close :: "fd \<Rightarrow> 'k \<Rightarrow> int \<times> 'k"
  ff_getsockopt :: "fd \<Rightarrow> int \<Rightarrow> int \<Rightarrow> 'k \<Rightarrow> (int \<times> int) \<times> 'k"
  ff_read :: "fd \<Rightarrow> nat \<Rightarrow> 'k \<Rightarrow> (int \<times> errno \<times> byte list) \<times> 'k"
  ff_write :: "fd \<Rightarrow> byte list \<Rightarrow> 'k \<Rightarrow> (int \<times> errno) \<times> 'k"
  ff_kqueue :: "'k \<Rightarrow> fd \<times> 'k"
  ff_kevent :: "fd \<Rightarrow> kevent list \<Rightarrow> nat \<Rightarrow> int option \<Rightarrow> 'k \<Rightarrow> (int \<times> errno \<times> kevent list) \<times> 'k"

section \<open>The backend\<close>

record 'k fstack =
  fs_kq :: fd
  fs_stack :: 'k

definition ffcall :: "('k \<Rightarrow> 'r \<times> 'k) \<Rightarrow> 'k fstack \<Rightarrow> 'r \<times> 'k fstack" where
  "ffcall f w = (let (r, k) = f (fs_stack w) in (r, w\<lparr>fs_stack := k\<rparr>))"

definition fs_init :: "'k fstack_api \<Rightarrow> string option \<Rightarrow> 'k fstack \<Rightarrow> (string + unit) \<times> 'k fstack" where
  "fs_init F config_file w =
     (let argv = (case config_file of Some file \<Rightarrow> [''-c'', file] | None \<Rightarrow> []);
          w = w\<lparr>fs_stack := ff_init F argv (fs_stack w)\<rparr>;
          (kq, w) = ffcall (ff_kqueue F) w;
          w = w\<lparr>fs_kq := kq\<rparr>
      in if kq < 0 then (Inl ''failed to create kqueue'', w) else (Inr (), w))"

text \<open>A call of \<open>ff_kevent\<close> that only submits changes.\<close>

definition submit :: "'k fstack_api \<Rightarrow> kevent list \<Rightarrow> 'k fstack \<Rightarrow> (int \<times> errno) \<times> 'k fstack" where
  "submit F kevs w = (let ((rc, e, _), w) = ffcall (ff_kevent F (fs_kq w) kevs 0 None) w in ((rc, e), w))"

definition fs_poll :: "'k fstack_api \<Rightarrow> nat \<Rightarrow> 'k fstack \<Rightarrow> (int \<times> kevent list) \<times> 'k fstack" where
  "fs_poll F len w =
     (let len = (if int len < 2147483647 then len else nat 2147483647);
          ((n, _, evs), w) = ffcall (ff_kevent F (fs_kq w) [] len (Some (100 * 1000 * 1000))) w
      in ((n, evs), w))"

definition fs_signal :: "'k fstack_api \<Rightarrow> 'k fstack \<Rightarrow> 'k fstack" where
  "fs_signal F w = snd (submit F [EV_SET KILL_IDENT EVFILT_USER 0 NOTE_TRIGGER 0] w)"

definition fs_stop :: "'k fstack_api \<Rightarrow> 'k fstack \<Rightarrow> 'k fstack" where
  "fs_stop F w = (if 0 \<le> fs_kq w then (snd (ffcall (ff_close F (fs_kq w)) w))\<lparr>fs_kq := -1\<rparr> else w)"

definition fs_ev_signal :: "kevent \<Rightarrow> 'k fstack \<Rightarrow> bool \<times> 'k fstack" where
  "fs_ev_signal ev w = (kev_ident ev = KILL_IDENT \<and> kev_filter ev = EVFILT_USER, w)"

definition fs_ev_close :: "kevent \<Rightarrow> bool" where
  "fs_ev_close ev \<longleftrightarrow> kev_flags ev AND EV_EOF \<noteq> 0"

definition fs_ev_error :: "kevent \<Rightarrow> bool" where
  "fs_ev_error ev \<longleftrightarrow> kev_flags ev AND EV_ERROR \<noteq> 0"

definition fs_ev_readable :: "kevent \<Rightarrow> bool" where
  "fs_ev_readable ev \<longleftrightarrow> kev_filter ev = EVFILT_READ"

definition fs_ev_writeable :: "kevent \<Rightarrow> bool" where
  "fs_ev_writeable ev \<longleftrightarrow> kev_filter ev = EVFILT_WRITE"

definition fs_subscribe :: "'k fstack_api \<Rightarrow> ptr \<Rightarrow> fd \<Rightarrow> bool \<Rightarrow> bool \<Rightarrow> 'k fstack \<Rightarrow> 'k fstack" where
  "fs_subscribe F p f want_read want_write w =
     (let del = (if \<not> want_read then [EV_SET f EVFILT_READ EV_DELETE 0 p] else []) @
                (if \<not> want_write then [EV_SET f EVFILT_WRITE EV_DELETE 0 p] else []);
          w = (if del \<noteq> [] then snd (submit F del w) else w);
          fl = EV_ADD OR EV_ENABLE OR EV_CLEAR;
          add = (if want_read then [EV_SET f EVFILT_READ fl 0 p] else []) @
                (if want_write then [EV_SET f EVFILT_WRITE fl 0 p] else [])
      in if add = [] then w
         else
           let ((rc, e), w) = submit F add w in
           if rc < 0 \<and> e = EEXIST then snd (submit F (map (\<lambda>kev. EV_SET f (kev_filter kev) EV_ENABLE 0 p) add) w)
           else w)"

definition fs_clear :: "'k fstack_api \<Rightarrow> fd \<Rightarrow> 'k fstack \<Rightarrow> 'k fstack" where
  "fs_clear F f w = snd (submit F [EV_SET f EVFILT_READ EV_DELETE 0 0, EV_SET f EVFILT_WRITE EV_DELETE 0 0] w)"

definition FStack :: "'k fstack_api \<Rightarrow> ('k fstack, kevent) net" where
  "FStack F =
     \<lparr>net_socket = (\<lambda>domain type proto. ffcall (ff_socket F domain type proto)),
      net_ioctl = (\<lambda>f req arg. ffcall (ff_ioctl F f req arg)),
      net_connect = (\<lambda>f sa l. ffcall (ff_connect F f sa l)), net_close = (\<lambda>f. ffcall (ff_close F f)),
      net_getsockopt = (\<lambda>f level opt. ffcall (ff_getsockopt F f level opt)),
      net_read = (\<lambda>f n. ffcall (ff_read F f n)), net_write = (\<lambda>f bs. ffcall (ff_write F f bs)),
      net_stop = fs_stop F, net_poll = fs_poll F, net_ev_signal = fs_ev_signal,
      net_ev_close = fs_ev_close, net_ev_error = fs_ev_error, net_ev_readable = fs_ev_readable,
      net_ev_writeable = fs_ev_writeable, net_get_user_data = kev_udata,
      net_subscribe = fs_subscribe F, net_clear = fs_clear F\<rparr>"

section \<open>The contract of the backend\<close>

text \<open>
  The documented behaviour of a kqueue: it keeps one entry for each pair of identifier and filter.
  An addition always succeeds; any other change needs an entry and fails with \<open>ENOENT\<close> without one.
  The changes of one call are applied in order, and when no room for events was given the first
  failure ends the call.
\<close>

type_synonym registry = "int \<times> kfilter \<Rightarrow> ptr option"

definition apply_change :: "kevent \<Rightarrow> registry \<Rightarrow> registry option" where
  "apply_change kev m =
     (let key = (kev_ident kev, kev_filter kev) in
      if kev_flags kev AND EV_ADD \<noteq> 0 then Some (m(key \<mapsto> kev_udata kev))
      else if m key = None then None
      else if kev_flags kev AND EV_DELETE \<noteq> 0 then Some (m(key := None))
      else Some (m(key \<mapsto> kev_udata kev)))"

fun apply_changes :: "kevent list \<Rightarrow> registry \<Rightarrow> bool \<times> registry" where
  "apply_changes [] m = (True, m)"
| "apply_changes (kev # kevs) m =
     (case apply_change kev m of None \<Rightarrow> (False, m) | Some m \<Rightarrow> apply_changes kevs m)"

type_synonym 'k fstack_env = "'k fstack_api \<times> ('k \<Rightarrow> fd \<Rightarrow> registry) \<times> ('k \<Rightarrow> fd \<Rightarrow> int \<Rightarrow> bool)"

fun kqueue_ok :: "'k fstack_env \<Rightarrow> bool" where
  "kqueue_ok (F, reg, usable) \<longleftrightarrow>
     (\<forall>kq kevs k rc e evs k' f. list_all (\<lambda>kev. kev_ident kev = f) kevs \<longrightarrow> usable k kq f \<longrightarrow>
        ff_kevent F kq kevs 0 None k = ((rc, e, evs), k') \<longrightarrow>
        reg k' kq = snd (apply_changes kevs (reg k kq)) \<and> usable k' kq f \<and>
        (if fst (apply_changes kevs (reg k kq)) then 0 \<le> rc else rc < 0 \<and> e = ENOENT))"

declare kqueue_ok.simps [simp del]

fun fs_usable :: "'k fstack_env \<Rightarrow> 'k fstack \<Rightarrow> fd \<Rightarrow> bool" where
  "fs_usable (F, reg, usable) w f = usable (fs_stack w) (fs_kq w) f"

fun fs_entries :: "'k fstack_env \<Rightarrow> 'k fstack \<Rightarrow> registry" where
  "fs_entries (F, reg, usable) w = reg (fs_stack w) (fs_kq w)"

definition fs_watches :: "'k fstack_env \<Rightarrow> 'k fstack \<Rightarrow> fd \<Rightarrow> bool \<times> bool" where
  "fs_watches env w f = (fs_entries env w (f, EVFILT_READ) \<noteq> None, fs_entries env w (f, EVFILT_WRITE) \<noteq> None)"

definition fs_cookie :: "'k fstack_env \<Rightarrow> 'k fstack \<Rightarrow> fd \<Rightarrow> ptr" where
  "fs_cookie env w f =
     (case fs_entries env w (f, EVFILT_READ) of Some p \<Rightarrow> p
      | None \<Rightarrow> (case fs_entries env w (f, EVFILT_WRITE) of Some p \<Rightarrow> p | None \<Rightarrow> 0))"

lemma submit_spec:
  assumes "kqueue_ok (F, reg, usable)" "list_all (\<lambda>kev. kev_ident kev = f) kevs" "fs_usable (F, reg, usable) w f"
  obtains rc e w' where "submit F kevs w = ((rc, e), w')"
    "fs_entries (F, reg, usable) w' = snd (apply_changes kevs (fs_entries (F, reg, usable) w))"
    "fs_usable (F, reg, usable) w' f"
    "if fst (apply_changes kevs (fs_entries (F, reg, usable) w)) then 0 \<le> rc else rc < 0 \<and> e = ENOENT"
proof -
  obtain rc e evs k' where k: "ff_kevent F (fs_kq w) kevs 0 None (fs_stack w) = ((rc, e, evs), k')" by (metis surj_pair)
  have "reg k' (fs_kq w) = snd (apply_changes kevs (reg (fs_stack w) (fs_kq w))) \<and> usable k' (fs_kq w) f \<and>
      (if fst (apply_changes kevs (reg (fs_stack w) (fs_kq w))) then 0 \<le> rc else rc < 0 \<and> e = ENOENT)"
    using assms(1) assms(2,3) k unfolding kqueue_ok.simps fs_usable.simps by blast
  then show thesis by (intro that [of rc e "w\<lparr>fs_stack := k'\<rparr>"]) (simp_all add: submit_def ffcall_def k)
qed

lemmas kevent_flags = EV_SET_def EV_ADD_def EV_DELETE_def EV_ENABLE_def EV_CLEAR_def

lemma apply_simps [simp]:
  "apply_change (EV_SET f filt (EV_ADD OR EV_ENABLE OR EV_CLEAR) ff p) m = Some (m((f, filt) \<mapsto> p))"
  "apply_change (EV_SET f filt EV_DELETE ff p) m = (if m (f, filt) = None then None else Some (m((f, filt) := None)))"
  by (simp_all add: apply_change_def kevent_flags Let_def)

text \<open>The entries after a subscription: the additions win, the other direction is deleted if it was there.\<close>

definition subscribed :: "ptr \<Rightarrow> fd \<Rightarrow> bool \<Rightarrow> bool \<Rightarrow> registry \<Rightarrow> registry" where
  "subscribed p f r v m =
     m((f, EVFILT_READ) := (if r then Some p else None), (f, EVFILT_WRITE) := (if v then Some p else None))"

lemma fs_subscribe_entries:
  assumes ok: "kqueue_ok (F, reg, usable)" and u: "fs_usable (F, reg, usable) w f" and rv: "r \<or> v"
  shows "fs_entries (F, reg, usable) (fs_subscribe F p f r v w) = subscribed p f r v (fs_entries (F, reg, usable) w)"
proof -
  let ?m = "fs_entries (F, reg, usable)"
  let ?fl = "EV_ADD OR EV_ENABLE OR EV_CLEAR"
  let ?del = "(if \<not> r then [EV_SET f EVFILT_READ EV_DELETE 0 p] else []) @ (if \<not> v then [EV_SET f EVFILT_WRITE EV_DELETE 0 p] else [])"
  let ?add = "(if r then [EV_SET f EVFILT_READ ?fl 0 p] else []) @ (if v then [EV_SET f EVFILT_WRITE ?fl 0 p] else [])"
  have ids: "list_all (\<lambda>kev. kev_ident kev = f) ?del" "list_all (\<lambda>kev. kev_ident kev = f) ?add"
    by (simp_all add: EV_SET_def)
  obtain w1 where w1: "(if ?del \<noteq> [] then snd (submit F ?del w) else w) = w1"
    "?m w1 = snd (apply_changes ?del (?m w))" "fs_usable (F, reg, usable) w1 f"
  proof (cases "?del = []")
    case True
    with u that [of w] show ?thesis by simp
  next
    case False
    from submit_spec [OF ok ids(1) u] that False show ?thesis by (metis snd_conv)
  qed
  obtain rc e w2 where w2: "submit F ?add w1 = ((rc, e), w2)" "?m w2 = snd (apply_changes ?add (?m w1))"
    "if fst (apply_changes ?add (?m w1)) then 0 \<le> rc else rc < 0 \<and> e = ENOENT"
    using submit_spec [OF ok ids(2) w1(3)] by metis
  have "fst (apply_changes ?add (?m w1))" by simp
  with w2(3) have rc: "0 \<le> rc" by simp
  have "?add \<noteq> []" using rv by auto
  with w1(1) w2(1) rc rv have "fs_subscribe F p f r v w = w2" by (auto simp: fs_subscribe_def Let_def)
  with w2(2) w1(2) rv show ?thesis by (cases r; cases v) (auto simp: subscribed_def fun_eq_iff)
qed

interpretation fstack: event_backend "\<lambda>(F, reg, usable). FStack F" kqueue_ok fs_usable fs_watches fs_cookie
proof (unfold_locales, goal_cases)
  case (1 env w f r v k)
  obtain F reg usable where env: "env = (F, reg, usable)" by (cases env)
  with 1 fs_subscribe_entries [of F reg usable w f r v k] show ?case
    by (auto simp: FStack_def fs_watches_def fs_cookie_def subscribed_def)
next
  case (2 env w f g k r v)
  obtain F reg usable where env: "env = (F, reg, usable)" by (cases env)
  show ?case
  proof (cases "r \<or> v")
    case True
    with 2 env fs_subscribe_entries [of F reg usable w f r v k] show ?thesis
      by (auto simp: FStack_def fs_watches_def subscribed_def)
  next
    case False
    have ids: "list_all (\<lambda>kev. kev_ident kev = f) [EV_SET f EVFILT_READ EV_DELETE 0 k, EV_SET f EVFILT_WRITE EV_DELETE 0 k]"
      by (simp add: EV_SET_def)
    from submit_spec [OF _ ids, of F reg usable w] 2 env obtain rc e w' where
      s: "submit F [EV_SET f EVFILT_READ EV_DELETE 0 k, EV_SET f EVFILT_WRITE EV_DELETE 0 k] w = ((rc, e), w')"
      "fs_entries env w' = snd (apply_changes [EV_SET f EVFILT_READ EV_DELETE 0 k, EV_SET f EVFILT_WRITE EV_DELETE 0 k] (fs_entries env w))"
      by metis
    from False s(1) have "fs_subscribe F k f r v w = w'" by (simp add: fs_subscribe_def)
    with s(2) 2(3) env show ?thesis by (auto simp: FStack_def fs_watches_def)
  qed
qed

text \<open>No operation of the backend registers the user event that \<open>signal\<close> triggers.\<close>

lemma fs_signal_entries:
  assumes "kqueue_ok (F, reg, usable)" "fs_usable (F, reg, usable) w KILL_IDENT"
    and "fs_entries (F, reg, usable) w (KILL_IDENT, EVFILT_USER) = None"
  shows "fs_entries (F, reg, usable) (fs_signal F w) = fs_entries (F, reg, usable) w"
proof -
  let ?kev = "EV_SET KILL_IDENT EVFILT_USER 0 NOTE_TRIGGER 0"
  have ids: "list_all (\<lambda>kev. kev_ident kev = KILL_IDENT) [?kev]" by (simp add: EV_SET_def)
  have "apply_change ?kev (fs_entries (F, reg, usable) w) = None"
    using assms(3) by (simp add: apply_change_def EV_SET_def)
  with submit_spec [OF assms(1) ids assms(2)] show ?thesis
    unfolding fs_signal_def by (metis (no_types, lifting) apply_changes.simps(2) option.simps(4) snd_conv)
qed

lemma fs_clear_entries:
  assumes "kqueue_ok (F, reg, usable)" "fs_usable (F, reg, usable) w f"
  shows "fs_entries (F, reg, usable) (fs_clear F f w) =
     (let m = fs_entries (F, reg, usable) w in
      if m (f, EVFILT_READ) = None then m else m((f, EVFILT_READ) := None, (f, EVFILT_WRITE) := None))"
proof -
  let ?m = "fs_entries (F, reg, usable) w"
  let ?kevs = "[EV_SET f EVFILT_READ EV_DELETE 0 0, EV_SET f EVFILT_WRITE EV_DELETE 0 0]"
  have ids: "list_all (\<lambda>kev. kev_ident kev = f) ?kevs" by (simp add: EV_SET_def)
  have "snd (apply_changes ?kevs ?m) =
      (if ?m (f, EVFILT_READ) = None then ?m else ?m((f, EVFILT_READ) := None, (f, EVFILT_WRITE) := None))"
    by (auto simp: fun_eq_iff)
  with submit_spec [OF assms(1) ids assms(2)] show ?thesis
    unfolding fs_clear_def Let_def by (metis (no_types, lifting) snd_conv)
qed

end
