(* ===== verification/Hexdump.thy ===== *)
theory Hexdump
  imports Buffer
begin

text \<open>
  \<^verbatim>\<open>src/manet/utils/hexdump.cc\<close>: the percent encoding of readable text and the hex dump of a
  buffer.  Text is a list of bytes here, as \<open>std::string\<close> is; \<open>char\<close> is signed on the platforms
  the code is built for, so a byte from 0x80 on is a negative \<open>char\<close>, for which \<open>std::isprint\<close> is
  undefined and \<open>hex[c >> 4]\<close> lies outside the table.
\<close>

section \<open>Operations\<close>

definition isprint :: "byte \<Rightarrow> bool" where
  "isprint c \<longleftrightarrow> 0x20 \<le> c \<and> c \<le> 0x7E"

text \<open>The table \<open>"0123456789abcdef"\<close>.\<close>

definition hex :: "nat \<Rightarrow> byte" where
  "hex d = (if d < 10 then 0x30 + of_nat d else 0x57 + of_nat d)"

definition hex2 :: "byte \<Rightarrow> byte list" where
  "hex2 c = [hex (unat c div 16), hex (unat c mod 16)]"

fun readable_ascii :: "byte list \<Rightarrow> byte list option" where
  "readable_ascii [] = Some []"
| "readable_ascii (c # cs) = do {
     require (c < 0x80);
     let s = (if \<not> isprint c then 0x25 # hex2 c else if c = 0x25 then [0x25, 0x25] else [c]);
     str \<leftarrow> readable_ascii cs;
     Some (s @ str)
   }"

text \<open>\<open>std::format("{:08x}", ...)\<close> of a 32-bit value.\<close>

definition hex8 :: "u32 \<Rightarrow> byte list" where
  "hex8 n = map (\<lambda>k. hex (unat n div 16 ^ k mod 16)) [7, 6, 5, 4, 3, 2, 1, 0]"

text \<open>The sixteen columns of a line, column \<open>j\<close> onwards, for the bytes that are left.\<close>

fun columns :: "nat \<Rightarrow> nat \<Rightarrow> byte list \<Rightarrow> byte list" where
  "columns 0 j bs = []"
| "columns (Suc k) j bs =
     (case bs of b # _ \<Rightarrow> hex2 b @ [0x20] | [] \<Rightarrow> [0x20, 0x20, 0x20]) @ (if j = 7 then [0x20] else []) @
     columns k (Suc j) (tl bs)"

definition dump_line :: "nat \<Rightarrow> byte list \<Rightarrow> byte list" where
  "dump_line off bs =
     hex8 (of_nat off) @ [0x20, 0x20] @ columns 16 0 bs @ [0x20, 0x7C] @
     map (\<lambda>c. if isprint c then c else 0x2E) bs @ [0x7C, 0x0A]"

function hexdump_from :: "nat \<Rightarrow> nat \<Rightarrow> byte list \<Rightarrow> byte list" where
  "hexdump_from base i s =
     (if i < length s then
        (let n = (if length s - i < 16 then length s - i else 16)
         in dump_line (base + i) (subspan i n s) @ hexdump_from base (i + 16) s)
      else [])"
  by pat_completeness auto
termination
  by (relation "measure (\<lambda>(base, i, s). length s - i)") auto

declare hexdump_from.simps [simp del]

definition hexdump :: "byte list \<Rightarrow> nat \<Rightarrow> byte list" where
  "hexdump s base = hexdump_from base 0 s"

text \<open>\<open>Buffer::hexdump\<close>, with the default base.\<close>

definition buffer_hexdump :: "buffer \<Rightarrow> byte list" where
  "buffer_hexdump b = hexdump (rbuf b) 0"

section \<open>Decoders\<close>

definition unhex :: "byte \<Rightarrow> nat" where
  "unhex c = (if c < 0x3A then unat c - 0x30 else unat c - 0x57)"

definition unhex2 :: "byte \<Rightarrow> byte \<Rightarrow> byte" where
  "unhex2 a b = of_nat (16 * unhex a + unhex b)"

text \<open>Undoes the percent encoding.\<close>

fun unread :: "byte list \<Rightarrow> byte list" where
  "unread [] = []"
| "unread (c # cs) =
     (if c = 0x25 then
        (case cs of
           a # cs' \<Rightarrow>
             if a = 0x25 then 0x25 # unread cs'
             else (case cs' of b # cs'' \<Rightarrow> unhex2 a b # unread cs'' | [] \<Rightarrow> [])
         | [] \<Rightarrow> [])
      else c # unread cs)"

text \<open>Reads the columns of a line back, and the lines of a dump.\<close>

fun read_columns :: "nat \<Rightarrow> nat \<Rightarrow> byte list \<Rightarrow> byte list" where
  "read_columns 0 j cs = []"
| "read_columns (Suc k) j cs =
     (if take 1 cs = [0x20] then []
      else unhex2 (cs ! 0) (cs ! 1) # read_columns k (Suc j) (drop (if j = 7 then 4 else 3) cs))"

definition read_line :: "byte list \<Rightarrow> byte list" where
  "read_line l = read_columns 16 0 (drop 10 l)"

function undump :: "byte list \<Rightarrow> byte list" where
  "undump out =
     (if out = [] then []
      else read_line (takeWhile (\<lambda>c. c \<noteq> 0x0A) out) @ undump (tl (dropWhile (\<lambda>c. c \<noteq> 0x0A) out)))"
  by pat_completeness auto
termination
proof (relation "measure length", simp)
  fix out :: "byte list" assume "out \<noteq> []"
  then show "(tl (dropWhile (\<lambda>c. c \<noteq> 0x0A) out), out) \<in> measure length"
    using length_dropWhile_le [of "\<lambda>c. c \<noteq> 0x0A" out] length_greater_0_conv [of out]
    unfolding in_measure length_tl by linarith
qed

declare undump.simps [simp del]

section \<open>Helper lemmas\<close>

lemma hex_props: "d < 16 \<Longrightarrow> unhex (hex d) = d \<and> hex d \<noteq> 0x25 \<and> hex d \<noteq> 0x20 \<and> hex d \<noteq> 0x0A"
proof -
  assume d: "d < 16"
  have "list_all (\<lambda>d. unhex (hex d) = d \<and> hex d \<noteq> 0x25 \<and> hex d \<noteq> 0x20 \<and> hex d \<noteq> 0x0A) [0..<16]" by code_simp
  with d show ?thesis unfolding list_all_iff by simp
qed

lemma unat_div_16: "unat (c :: byte) div 16 < 16"
proof -
  have "unat c < 2 ^ LENGTH(8)" by (rule unsigned_less)
  then show ?thesis by simp
qed

lemma unhex2_hex2: "unhex2 (hex (unat c div 16)) (hex (unat c mod 16)) = c"
proof -
  have "unhex (hex (unat c div 16)) = unat c div 16" "unhex (hex (unat c mod 16)) = unat c mod 16"
    using hex_props [OF unat_div_16 [of c]] hex_props [of "unat c mod 16"] by auto
  then show ?thesis by (simp add: unhex2_def)
qed

lemma readable_ascii_Some_iff: "(\<exists>s. readable_ascii cs = Some s) \<longleftrightarrow> list_all (\<lambda>c. c < 0x80) cs"
  by (induction cs) (auto simp: Let_def bind_Some_iff)

lemma unread_readable: "readable_ascii cs = Some s \<Longrightarrow> unread s = cs"
proof (induction cs arbitrary: s)
  case (Cons c cs)
  from Cons.prems obtain str where str: "readable_ascii cs = Some str"
    and s: "s = (if \<not> isprint c then 0x25 # hex2 c else if c = 0x25 then [0x25, 0x25] else [c]) @ str"
    by (auto simp: defined_iff Let_def)
  have "hex (unat c div 16) \<noteq> 0x25" using hex_props [OF unat_div_16] by simp
  with Cons.IH [OF str] s show ?case by (auto simp: hex2_def unhex2_hex2)
qed simp

lemma read_columns_columns: "length bs \<le> k \<Longrightarrow> read_columns k j (columns k j bs @ rest) = bs"
proof (induction k arbitrary: j bs)
  case (Suc k)
  show ?case
  proof (cases bs)
    case (Cons b bs')
    have "hex (unat b div 16) \<noteq> 0x20" using hex_props [OF unat_div_16] by simp
    with Suc.IH [of bs' "Suc j"] Suc.prems Cons show ?thesis
      by (cases "j = 7") (simp_all add: hex2_def unhex2_hex2)
  qed simp
qed simp

lemma columns_no_newline: "0x0A \<notin> set (columns k j bs)"
proof (induction k arbitrary: j bs)
  case (Suc k)
  have "0x0A \<notin> set (hex2 b)" for b
    using hex_props [OF unat_div_16 [of b]] hex_props [of "unat b mod 16"] by (auto simp: hex2_def)
  with Suc show ?case by (auto split: list.split)
qed simp

lemma length_columns: "length (columns k j bs) = 3 * k + (if j \<le> 7 \<and> 7 < j + k then 1 else 0)"
  by (induction k arbitrary: j bs) (auto simp: hex2_def split: list.split)

lemma hex8_props: "length (hex8 n) = 8" "0x0A \<notin> set (hex8 n)"
  using hex_props by (auto simp: hex8_def)

text \<open>A line is its text, which contains no newline, and a newline.\<close>

lemma dump_line_split:
  "\<exists>l. dump_line off bs = l @ [0x0A] \<and> 0x0A \<notin> set l \<and> (length bs \<le> 16 \<longrightarrow> read_line l = bs) \<and> length l = 62 + length bs"
proof -
  let ?g = "[0x20, 0x7C] @ map (\<lambda>c. if isprint c then c else 0x2E) bs @ [0x7C]"
  let ?l = "hex8 (of_nat off) @ [0x20, 0x20] @ columns 16 0 bs @ ?g"
  have g: "0x0A \<notin> set ?g" by (auto simp: isprint_def)
  have "drop 10 ?l = columns 16 0 bs @ ?g" by (simp add: hex8_props)
  then have "length bs \<le> 16 \<longrightarrow> read_line ?l = bs"
    using read_columns_columns [of bs 16 0 ?g] by (simp add: read_line_def)
  moreover have "0x0A \<notin> set ?l" using g columns_no_newline [of 16 0 bs] hex8_props(2) by auto
  moreover have "length ?l = 62 + length bs" using length_columns [of 16 0 bs] by (simp add: hex8_props)
  moreover have "dump_line off bs = ?l @ [0x0A]" by (simp add: dump_line_def)
  ultimately show ?thesis by blast
qed

lemma undump_line:
  assumes "length bs \<le> 16"
  shows "undump (dump_line off bs @ rest) = bs @ undump rest"
proof -
  obtain l where l: "dump_line off bs = l @ [0x0A]" "0x0A \<notin> set l" "read_line l = bs"
    using dump_line_split assms by blast
  have "takeWhile (\<lambda>c. c \<noteq> 0x0A) (l @ 0x0A # rest) = l" "dropWhile (\<lambda>c. c \<noteq> 0x0A) (l @ 0x0A # rest) = 0x0A # rest"
    using l(2) by (simp_all add: takeWhile_append dropWhile_append)
  then show ?thesis using l(1,3) by (subst undump.simps) simp
qed

lemma undump_hexdump_from: "undump (hexdump_from base i s) = drop i s"
proof (induction base i s rule: hexdump_from.induct)
  case (1 base i s)
  show ?case
  proof (cases "i < length s")
    case True
    let ?n = "if length s - i < 16 then length s - i else 16"
    have "length (subspan i ?n s) \<le> 16" by simp
    then have "undump (hexdump_from base i s) = subspan i ?n s @ drop (i + 16) s"
      using 1 [OF True] by (subst hexdump_from.simps) (simp add: True Let_def undump_line)
    also have "\<dots> = drop i s"
      using True by (auto simp: subspan_def) (metis add.commute append_take_drop_id drop_drop)
    finally show ?thesis .
  qed (simp add: hexdump_from.simps [of base i s] undump.simps [of "[]"])
qed

lemma length_dump_line: "length (dump_line off bs) = 63 + length bs"
  using dump_line_split [of off bs] by auto

lemma length_hexdump_from: "i \<le> length s \<Longrightarrow> length (hexdump_from base i s) = 63 * ((length s - i + 15) div 16) + (length s - i)"
proof (induction base i s rule: hexdump_from.induct)
  case (1 base i s)
  show ?case
  proof (cases "i < length s")
    case True
    let ?n = "if length s - i < 16 then length s - i else 16"
    have rec: "length (hexdump_from base i s) = 63 + ?n + length (hexdump_from base (i + 16) s)"
      using True by (subst hexdump_from.simps) (simp add: Let_def length_dump_line)
    show ?thesis
    proof (cases "length s - i \<le> 16")
      case le: True
      then have "\<not> i + 16 < length s" by linarith
      then have "hexdump_from base (i + 16) s = []" by (simp add: hexdump_from.simps [of base "i + 16" s])
      moreover have "(length s - i + 15) div 16 = 1" using True le by (intro div_nat_eqI) simp_all
      moreover have "?n = length s - i" using le by auto
      ultimately show ?thesis by (simp only: rec list.size mult_1_right add_0_right)
    next
      case False
      then have "length s - i + 15 = (length s - (i + 16) + 15) + 16" by simp
      then have "(length s - i + 15) div 16 = (length s - (i + 16) + 15) div 16 + 1" by (simp only: div_add_self2)
      moreover have "length (hexdump_from base (i + 16) s) =
          63 * ((length s - (i + 16) + 15) div 16) + (length s - (i + 16))"
        by (rule "1.IH" [OF True refl]) (use False in auto)
      moreover have "?n = 16" "length s - i = length s - (i + 16) + 16" using False by auto
      ultimately show ?thesis by (simp only: rec) (simp only: algebra_simps)
    qed
  next
    case False
    then have "hexdump_from base i s = []" by (simp add: hexdump_from.simps [of base i s])
    with False "1.prems" show ?thesis by simp
  qed
qed

section \<open>Properties\<close>

text \<open>
  C26: a hex dump can be read back.  The columns of its lines are the bytes dumped, whatever they are
  and wherever the dump starts, and its size is 63 characters a line and one for every byte.
\<close>

theorem hexdump_roundtrip:
  "undump (hexdump s base) = s \<and> length (hexdump s base) = 63 * ((length s + 15) div 16) + length s"
  using undump_hexdump_from [of base 0 s] length_hexdump_from [of 0 s base] by (simp add: hexdump_def)

text \<open>
  The percent encoding is reversible on ASCII and undefined elsewhere.  \<open>readable_ascii\<close> has a
  result exactly when every byte is below 0x80, and then decoding it gives the input back; a byte
  from 0x80 on is a negative \<open>char\<close> and indexes the table of digits out of its bounds.
\<close>

theorem readable_ascii_roundtrip:
  "(\<forall>s. readable_ascii cs = Some s \<longrightarrow> unread s = cs) \<and>
   ((\<exists>s. readable_ascii cs = Some s) \<longleftrightarrow> list_all (\<lambda>c. c < 0x80) cs)"
  using unread_readable readable_ascii_Some_iff by blast

theorem readable_ascii_roundtrip_witness:
  "readable_ascii [0x41, 0x0A, 0x25] = Some [0x41, 0x25, 0x30, 0x61, 0x25, 0x25] \<and>
   unread [0x41, 0x25, 0x30, 0x61, 0x25, 0x25] = [0x41, 0x0A, 0x25] \<and> (\<nexists>s. readable_ascii [0x80] = Some s)"
proof -
  have r: "readable_ascii [0x41, 0x0A, 0x25] = Some [0x41, 0x25, 0x30, 0x61, 0x25, 0x25]" by code_simp
  with readable_ascii_roundtrip [of "[0x41, 0x0A, 0x25]"] readable_ascii_roundtrip [of "[0x80]"] show ?thesis by simp
qed

end
