(* ===== verification/Tls.thy ===== *)
theory Tls
  imports Connection_Frame
begin

text \<open>
  \<^verbatim>\<open>include/manet/transport/tls_bio.hpp\<close>, \<^verbatim>\<open>src/manet/transport/tls_bio.cc\<close>,
  \<^verbatim>\<open>include/manet/transport/tls.hpp\<close> and \<^verbatim>\<open>src/manet/transport/tls.cc\<close>: the BIO that puts a
  network backend under OpenSSL, and the TLS transport.  OpenSSL is the record \<open>openssl\<close> of the
  functions the code calls; the two globals of the program (the once flag and \<open>g_tls_ctx\<close>) live
  in the world and are reached through its first four fields.  The pointer \<open>ssl_ctx\<close> of an endpoint
  is a \<open>tls_endpoint\<close>: indeterminate before \<open>init\<close>, dangling after \<open>destroy\<close>, which frees the
  object and keeps the pointer.  Passing an indeterminate or dangling pointer to OpenSSL is
  undefined.
\<close>

section \<open>OpenSSL\<close>

datatype ssl_error =
    SSL_ERROR_NONE | SSL_ERROR_ZERO_RETURN | SSL_ERROR_WANT_READ | SSL_ERROR_WANT_WRITE
  | SSL_ERROR_SYSCALL | SSL_ERROR_SSL | SSL_ERROR_other int

record socket_bio =
  bio_init :: bool
  bio_data :: "fd option"
  bio_retry_read :: bool
  bio_retry_write :: bool

record ('w, 'ctx, 'ssl) openssl =
  tls_once :: "'w \<Rightarrow> bool"
  set_tls_once :: "'w \<Rightarrow> 'w"
  g_tls_ctx :: "'w \<Rightarrow> 'ctx option"
  set_g_tls_ctx :: "'ctx option \<Rightarrow> 'w \<Rightarrow> 'w"
  SSL_CTX_new :: "'w \<Rightarrow> 'ctx option \<times> 'w"
  SSL_CTX_set_default_verify_paths :: "'ctx \<Rightarrow> 'w \<Rightarrow> int \<times> 'w"
  SSL_CTX_set_min_proto_version :: "'ctx \<Rightarrow> int \<Rightarrow> 'w \<Rightarrow> 'w"
  SSL_CTX_free :: "'ctx \<Rightarrow> 'w \<Rightarrow> 'w"
  BIO_alloc :: "'w \<Rightarrow> bool \<times> 'w"
  SSL_new :: "'ctx option \<Rightarrow> 'w \<Rightarrow> 'ssl option \<times> 'w"
  SSL_set_bio :: "'ssl \<Rightarrow> socket_bio \<Rightarrow> 'w \<Rightarrow> 'w"
  SSL_set_connect_state :: "'ssl \<Rightarrow> 'w \<Rightarrow> 'w"
  SSL_set_tlsext_host_name :: "'ssl \<Rightarrow> string \<Rightarrow> 'w \<Rightarrow> int \<times> 'w"
  SSL_set_verify_peer :: "'ssl \<Rightarrow> 'w \<Rightarrow> 'w"
  SSL_set1_host :: "'ssl \<Rightarrow> string \<Rightarrow> 'w \<Rightarrow> int \<times> 'w"
  SSL_free :: "'ssl \<Rightarrow> 'w \<Rightarrow> 'w"
  SSL_connect :: "'ssl \<Rightarrow> 'w \<Rightarrow> int \<times> 'w"
  SSL_read :: "'ssl \<Rightarrow> nat \<Rightarrow> 'w \<Rightarrow> (int \<times> byte list) \<times> 'w"
  SSL_write :: "'ssl \<Rightarrow> byte list \<Rightarrow> 'w \<Rightarrow> int \<times> 'w"
  SSL_shutdown :: "'ssl \<Rightarrow> 'w \<Rightarrow> int \<times> 'w"
  SSL_get_error :: "'ssl \<Rightarrow> int \<Rightarrow> 'w \<Rightarrow> ssl_error \<times> 'w"

section \<open>The socket BIO\<close>

definition bio_create :: "socket_bio \<Rightarrow> int \<times> socket_bio" where
  "bio_create bio = (1, bio\<lparr>bio_init := True, bio_data := Some (-1)\<rparr>)"

text \<open>A null \<open>bio\<close> is \<open>None\<close>; \<open>delete\<close> of a null pointer does nothing.\<close>

definition bio_destroy :: "socket_bio option \<Rightarrow> int \<times> socket_bio option" where
  "bio_destroy bio =
     (case bio of None \<Rightarrow> (0, None) | Some b \<Rightarrow> (1, Some (b\<lparr>bio_data := None, bio_init := False\<rparr>)))"

datatype bio_cmd = BIO_C_SET_FD | BIO_C_GET_FD | BIO_CTRL_FLUSH | BIO_other int

text \<open>\<open>ptr\<close> is the \<open>int\<close> the last argument points to, \<open>None\<close> for a null pointer.\<close>

definition bio_ctrl ::
    "bio_cmd \<Rightarrow> int option \<Rightarrow> socket_bio \<Rightarrow> (int \<times> int option \<times> socket_bio) option" where
  "bio_ctrl cmd ptr bio =
     (case cmd of
        BIO_C_SET_FD \<Rightarrow> do {
          _ \<leftarrow> bio_data bio;
          Some (1, ptr, bio\<lparr>bio_data := Some (case ptr of Some f \<Rightarrow> f | None \<Rightarrow> -1)\<rparr>)
        }
      | BIO_C_GET_FD \<Rightarrow> do {
          f \<leftarrow> bio_data bio;
          Some (f, map_option (\<lambda>_. f) ptr, bio)
        }
      | BIO_CTRL_FLUSH \<Rightarrow> Some (1, ptr, bio)
      | BIO_other _ \<Rightarrow> Some (0, ptr, bio))"

definition clear_retry :: "socket_bio \<Rightarrow> socket_bio" where
  "clear_retry bio = bio\<lparr>bio_retry_read := False, bio_retry_write := False\<rparr>"

partial_function (option) bio_read_loop ::
    "('w, 'ev) net \<Rightarrow> fd \<Rightarrow> nat \<Rightarrow> socket_bio \<Rightarrow> 'w \<Rightarrow> ((int \<times> byte list) \<times> socket_bio \<times> 'w) option" where
  "bio_read_loop N f outl bio w =
     (case net_read N f outl w of ((n, e, bs), w) \<Rightarrow>
        if 0 \<le> n then Some ((n, bs), bio, w)
        else if e = EINTR then bio_read_loop N f outl bio w
        else Some ((-1, []), if e = EAGAIN \<or> e = EWOULDBLOCK then bio\<lparr>bio_retry_read := True\<rparr> else bio, w))"

definition bio_read ::
    "('w, 'ev) net \<Rightarrow> nat \<Rightarrow> socket_bio \<Rightarrow> 'w \<Rightarrow> ((int \<times> byte list) \<times> socket_bio \<times> 'w) option" where
  "bio_read N outl bio w = do { f \<leftarrow> bio_data bio; bio_read_loop N f outl (clear_retry bio) w }"

partial_function (option) bio_write_loop ::
    "('w, 'ev) net \<Rightarrow> fd \<Rightarrow> byte list \<Rightarrow> socket_bio \<Rightarrow> 'w \<Rightarrow> (int \<times> socket_bio \<times> 'w) option" where
  "bio_write_loop N f bs bio w =
     (case net_write N f bs w of ((n, e), w) \<Rightarrow>
        if 0 \<le> n then Some (n, bio, w)
        else if e = EINTR then bio_write_loop N f bs bio w
        else Some (-1, if e = EAGAIN \<or> e = EWOULDBLOCK then bio\<lparr>bio_retry_write := True\<rparr> else bio, w))"

declare bio_read_loop.simps [code] bio_write_loop.simps [code]

text \<open>\<open>in\<close> is \<open>None\<close> for a null pointer.\<close>

definition bio_write ::
    "('w, 'ev) net \<Rightarrow> byte list option \<Rightarrow> socket_bio \<Rightarrow> 'w \<Rightarrow> (int \<times> socket_bio \<times> 'w) option" where
  "bio_write N input bio w =
     (case input of
        None \<Rightarrow> Some (0, bio, w)
      | Some bs \<Rightarrow>
          if bs = [] then Some (0, bio, w)
          else do { f \<leftarrow> bio_data bio; bio_write_loop N f bs (clear_retry bio) w })"

text \<open>\<open>BIO_new(BIO_method<Net>())\<close> allocates and calls \<open>bio_create\<close>; a null result is dereferenced.\<close>

definition socket_BIO :: "('w, 'ctx, 'ssl) openssl \<Rightarrow> fd \<Rightarrow> 'w \<Rightarrow> (socket_bio \<times> 'w) option" where
  "socket_BIO S f w =
     (let (ok, w) = BIO_alloc S w in
      if \<not> ok then None
      else
        let (_, bio) = bio_create \<lparr>bio_init = False, bio_data = None, bio_retry_read = False, bio_retry_write = False\<rparr>
        in do { _ \<leftarrow> bio_data bio; Some (bio\<lparr>bio_data := Some f\<rparr>, w) })"

section \<open>The globals\<close>

definition TLS1_2_VERSION :: int where "TLS1_2_VERSION = 0x303"

text \<open>An exception leaves the \<open>noexcept\<close> function \<open>init\<close>, which terminates the program.\<close>

definition g_tls_init :: "('w, 'ctx, 'ssl) openssl \<Rightarrow> 'w \<Rightarrow> 'w option" where
  "g_tls_init S w =
     (if tls_once S w then Some w
      else
        let (ctx, w) = SSL_CTX_new S w; w = set_g_tls_ctx S ctx w in
        case ctx of
          None \<Rightarrow> None
        | Some c \<Rightarrow>
            let (r, w) = SSL_CTX_set_default_verify_paths S c w in
            if r \<noteq> 1 then None
            else Some (set_tls_once S (SSL_CTX_set_min_proto_version S c TLS1_2_VERSION w)))"

definition g_tls_free :: "('w, 'ctx, 'ssl) openssl \<Rightarrow> 'w \<Rightarrow> 'w" where
  "g_tls_free S w =
     (case g_tls_ctx S w of None \<Rightarrow> w | Some c \<Rightarrow> set_g_tls_ctx S None (SSL_CTX_free S c w))"

section \<open>The endpoint\<close>

datatype 'ssl tls_endpoint = Ssl_indet | Ssl_live 'ssl | Ssl_freed

fun live_ssl :: "'ssl tls_endpoint \<Rightarrow> 'ssl option" where
  "live_ssl (Ssl_live s) = Some s"
| "live_ssl _ = None"

definition tls_init ::
    "('w, 'ctx, 'ssl) openssl \<Rightarrow> fd \<Rightarrow> string \<Rightarrow> 'w \<Rightarrow> ('ssl tls_endpoint option \<times> 'w) option" where
  "tls_init S f host w = do {
     w \<leftarrow> g_tls_init S w;
     case SSL_new S (g_tls_ctx S w) w of
       (None, w) \<Rightarrow> Some (None, w)
     | (Some ctx, w) \<Rightarrow> do {
         (bio, w) \<leftarrow> socket_BIO S f w;
         let w = SSL_set_connect_state S ctx (SSL_set_bio S ctx bio w);
         let (r, w) = SSL_set_tlsext_host_name S ctx host w;
         if r \<noteq> 1 then Some (None, SSL_free S ctx w)
         else do {
           let w = SSL_set_verify_peer S ctx w;
           let (r, w) = SSL_set1_host S ctx host w;
           if r \<noteq> 1 then Some (None, SSL_free S ctx w) else Some (Some (Ssl_live ctx), w)
         }
       }
   }"

definition tls_handshake_step ::
    "('w, 'ctx, 'ssl) openssl \<Rightarrow> 'ssl tls_endpoint \<Rightarrow> 'w \<Rightarrow> (transport_status \<times> 'ssl tls_endpoint \<times> 'w) option" where
  "tls_handshake_step S ep w = do {
     s \<leftarrow> live_ssl ep;
     let (r, w) = SSL_connect S s w;
     if r \<noteq> 1 then
       (let (err, w) = SSL_get_error S s r w in
        Some (case err of SSL_ERROR_WANT_WRITE \<Rightarrow> T_want_write | SSL_ERROR_WANT_READ \<Rightarrow> T_want_read | _ \<Rightarrow> T_error, ep, w))
     else Some (T_ok, ep, w)
   }"

definition INT_MAX :: int where "INT_MAX = 2147483647"

text \<open>The status both \<open>read\<close> and \<open>write\<close> derive from the error of a call that moved nothing.\<close>

fun io_status :: "ssl_error \<Rightarrow> transport_status" where
  "io_status SSL_ERROR_WANT_READ = T_want_read"
| "io_status SSL_ERROR_WANT_WRITE = T_want_write"
| "io_status SSL_ERROR_ZERO_RETURN = T_close"
| "io_status _ = T_error"

definition tls_read ::
    "('w, 'ctx, 'ssl) openssl \<Rightarrow> 'ssl tls_endpoint \<Rightarrow> buffer \<Rightarrow> 'w \<Rightarrow>
     (transport_status \<times> 'ssl tls_endpoint \<times> buffer \<times> 'w) option" where
  "tls_read S ep rx w = do {
     s \<leftarrow> live_ssl ep;
     let sz = (if int (wbuf_size rx) < INT_MAX then wbuf_size rx else nat INT_MAX);
     let ((len, bs), w) = SSL_read S s sz w;
     if 0 < len then do { rx \<leftarrow> poke bs rx; Some (T_ok, ep, wrote (nat len) rx, w) }
     else (let (err, w) = SSL_get_error S s len w in Some (io_status err, ep, rx, w))
   }"

definition tls_write ::
    "('w, 'ctx, 'ssl) openssl \<Rightarrow> 'ssl tls_endpoint \<Rightarrow> buffer \<Rightarrow> 'w \<Rightarrow>
     (transport_status \<times> 'ssl tls_endpoint \<times> buffer \<times> 'w) option" where
  "tls_write S ep tx w = do {
     s \<leftarrow> live_ssl ep;
     let sz = (if int (length (rbuf tx)) < INT_MAX then length (rbuf tx) else nat INT_MAX);
     let (len, w) = SSL_write S s (take sz (rbuf tx)) w;
     if 0 < len then Some (T_ok, ep, read (nat len) tx, w)
     else (let (err, w) = SSL_get_error S s len w in Some (io_status err, ep, tx, w))
   }"

definition tls_shutdown_step ::
    "('w, 'ctx, 'ssl) openssl \<Rightarrow> 'ssl tls_endpoint \<Rightarrow> 'w \<Rightarrow> (transport_status \<times> 'ssl tls_endpoint \<times> 'w) option" where
  "tls_shutdown_step S ep w = do {
     s \<leftarrow> live_ssl ep;
     let (r, w) = SSL_shutdown S s w;
     if r = 1 then Some (T_ok, ep, w)
     else
       (let (e, w) = SSL_get_error S s r w in
        Some (case e of SSL_ERROR_ZERO_RETURN \<Rightarrow> T_ok | SSL_ERROR_WANT_WRITE \<Rightarrow> T_want_write
              | SSL_ERROR_WANT_READ \<Rightarrow> T_want_read | _ \<Rightarrow> T_error, ep, w))
   }"

text \<open>\<open>destroy\<close> tests and frees the pointer but does not reset it.\<close>

definition tls_destroy ::
    "('w, 'ctx, 'ssl) openssl \<Rightarrow> 'ssl tls_endpoint \<Rightarrow> 'w \<Rightarrow> ('ssl tls_endpoint \<times> 'w) option" where
  "tls_destroy S ep w = do { s \<leftarrow> live_ssl ep; Some (Ssl_freed, SSL_free S s w) }"

definition Tls :: "('w, 'ctx, 'ssl) openssl \<Rightarrow> ('w, 'ssl tls_endpoint, string) transport" where
  "Tls S = \<lparr>t_default = Ssl_indet, t_init = tls_init S, t_read = tls_read S, t_write = tls_write S,
     t_destroy = tls_destroy S, t_handshake_step = Some (tls_handshake_step S),
     t_shutdown_step = Some (tls_shutdown_step S)\<rparr>"

text \<open>\<open>Connection<Net, transport::Tls, Protocol>\<close>.\<close>

definition tls_templ ::
    "('w, 'v) net \<Rightarrow> 'w resolver \<Rightarrow> ('w, 'ctx, 'ssl) openssl \<Rightarrow> ('w, 's, 'p) protocol \<Rightarrow>
     ('w, 'v, 'ssl tls_endpoint, 's, string, 'p) templ" where
  "tls_templ N R S P = \<lparr>net_of = N, resolver_of = R, transport_of = Tls S, protocol_of = P\<rparr>"

section \<open>The laws of a transport\<close>

text \<open>
  The documented behaviour of \<open>SSL_read\<close> and \<open>SSL_write\<close>: a positive result is the number of
  bytes moved, at most the number asked for.
\<close>

definition ssl_wf :: "('w, 'ctx, 'ssl) openssl \<Rightarrow> bool" where
  "ssl_wf S \<longleftrightarrow>
     (\<forall>s n w len bs w'. SSL_read S s n w = ((len, bs), w') \<longrightarrow> len \<le> int n \<and> (0 < len \<longrightarrow> length bs = nat len)) \<and>
     (\<forall>s bs w len w'. SSL_write S s bs w = (len, w') \<longrightarrow> len \<le> int (length bs))"

lemma tls_read_spec:
  assumes "ssl_wf S" "buffer_ok rx" "tls_read S ep rx w = Some (st, ep', rx', w')"
  shows "extends rx rx' \<and> (st = T_ok \<longrightarrow> length (rbuf rx) < length (rbuf rx')) \<and> ep' = ep"
proof -
  let ?sz = "if int (wbuf_size rx) < INT_MAX then wbuf_size rx else nat INT_MAX"
  from assms(3) obtain s where s: "live_ssl ep = Some s" by (auto simp: tls_read_def defined_iff)
  obtain len bs w1 where rd: "SSL_read S s ?sz w = ((len, bs), w1)" by (metis surj_pair)
  from assms(1) rd have len: "0 < len \<longrightarrow> length bs = nat len" unfolding ssl_wf_def by blast
  show ?thesis
  proof (cases "0 < len")
    case True
    from len True have "do { rx \<leftarrow> poke bs rx; Some (T_ok, ep, wrote (nat len) rx, w1) } =
        map_option (\<lambda>rx. (T_ok, ep, rx, w1)) (emit bs rx)"
      by (cases "poke bs rx") (simp_all add: emit_def)
    with assms(3) s rd True obtain rx1 where em: "emit bs rx = Some rx1"
      and eq: "st = T_ok" "ep' = ep" "rx' = rx1" by (auto simp: tls_read_def Let_def)
    from True len have "bs \<noteq> []" by auto
    with extends_emit [OF assms(2) em] emit_rbuf [OF buffer_okD(1) [OF assms(2)] em] eq show ?thesis by simp
  next
    case False
    obtain err w2 where e: "SSL_get_error S s len w1 = (err, w2)" by (metis surj_pair)
    from assms(3) s rd False e have "rx' = rx" "ep' = ep" "st = io_status err" by (auto simp: tls_read_def Let_def)
    moreover have "io_status err \<noteq> T_ok" by (cases err) simp_all
    ultimately show ?thesis using assms(2) by simp
  qed
qed

lemma tls_write_spec:
  assumes "ssl_wf S" "buffer_ok tx" "tls_write S ep tx w = Some (st, ep', tx', w')"
  shows "shrinks tx tx' \<and> ep' = ep"
proof -
  let ?sz = "if int (length (rbuf tx)) < INT_MAX then length (rbuf tx) else nat INT_MAX"
  from assms(3) obtain s where s: "live_ssl ep = Some s" by (auto simp: tls_write_def defined_iff)
  obtain len w1 where wr: "SSL_write S s (take ?sz (rbuf tx)) w = (len, w1)" by (metis surj_pair)
  from assms(1) wr have "len \<le> int (length (take ?sz (rbuf tx)))" unfolding ssl_wf_def by blast
  then have len: "nat len \<le> length (rbuf tx)" by (auto split: if_splits)
  obtain err w2 where e: "SSL_get_error S s len w1 = (err, w2)" by (metis surj_pair)
  from assms(3) s wr e shrinks_read [OF assms(2) len] assms(2) show ?thesis
    by (auto simp: tls_write_def Let_def split: if_splits)
qed

interpretation tls: transport_laws Tls ssl_wf
proof unfold_locales
  fix S :: "('w, 'ctx, 'ssl) openssl" and rx tx rx' tx' ep ep' st and w w' :: 'w
  assume S: "ssl_wf S"
  show "buffer_ok rx \<Longrightarrow> t_read (Tls S) ep rx w = Some (st, ep', rx', w') \<Longrightarrow> extends rx rx'"
    using tls_read_spec [OF S] by (simp add: Tls_def)
  show "buffer_ok rx \<Longrightarrow> t_read (Tls S) ep rx w = Some (T_ok, ep', rx', w') \<Longrightarrow>
      length (rbuf rx) < length (rbuf rx')"
    using tls_read_spec [OF S] by (fastforce simp: Tls_def)
  show "buffer_ok tx \<Longrightarrow> t_write (Tls S) ep tx w = Some (st, ep', tx', w') \<Longrightarrow> shrinks tx tx'"
    using tls_write_spec [OF S] by (simp add: Tls_def)
qed

end
