(* ===== verification/Ws_Frame.thy ===== *)
theory Ws_Frame
  imports Manet_Prelude
begin

text \<open>
  \<^verbatim>\<open>include/manet/protocol/websocket_frame.hpp\<close> and the frame writers of
  \<^verbatim>\<open>src/manet/protocol/websocket.cc\<close>: the parser for frames a server sends and the writers
  for the masked control frames a client sends.  The payload length is a \<open>64 word\<close>, so
  the sum of header and payload length wraps as \<open>uint64_t\<close> does; the payload of a
  \<open>frame_view\<close> is a non-owning span (an offset into the input and a size), not a copy.
\<close>

unbundle bit_operations_syntax

section \<open>Enumerations\<close>

text \<open>
  \<open>static_cast<OpCode>(b0 & 0x0F)\<close> also produces values that have no enumerator: they are
  \<open>Op_reserved b\<close>.
\<close>

datatype op_code = Op_cont | Op_text | Op_binary | Op_close | Op_ping | Op_pong | Op_reserved byte

definition op_byte :: "op_code \<Rightarrow> byte" where
  "op_byte opc =
     (case opc of Op_cont \<Rightarrow> 0x0 | Op_text \<Rightarrow> 0x1 | Op_binary \<Rightarrow> 0x2 | Op_close \<Rightarrow> 0x8
      | Op_ping \<Rightarrow> 0x9 | Op_pong \<Rightarrow> 0xA | Op_reserved b \<Rightarrow> b)"

datatype close_code =
    normal | going_away | protocol_error | unsupported | invalid_payload
  | policy_violation | msg_too_big | mandatory_ext | internal_error

definition close_value :: "close_code \<Rightarrow> u16" where
  "close_value c =
     (case c of normal \<Rightarrow> 1000 | going_away \<Rightarrow> 1001 | protocol_error \<Rightarrow> 1002
      | unsupported \<Rightarrow> 1003 | invalid_payload \<Rightarrow> 1007 | policy_violation \<Rightarrow> 1008
      | msg_too_big \<Rightarrow> 1009 | mandatory_ext \<Rightarrow> 1010 | internal_error \<Rightarrow> 1011)"

datatype parse_status = PS_ok | PS_need_more | PS_masked_server | PS_bad_reserved

record span =
  sp_off :: nat
  sp_size :: u64

record frame_view =
  fv_op :: op_code
  fv_fin :: bool
  fv_payload :: span
  fv_payload_len :: u64

record parse_output =
  po_frame :: frame_view
  po_consumed :: u64

section \<open>Header bits\<close>

definition fin_bit :: "byte \<Rightarrow> bool" where
  "fin_bit b0 \<longleftrightarrow> b0 AND 0x80 \<noteq> 0"

definition rsv :: "byte \<Rightarrow> byte" where
  "rsv b0 = drop_bit 4 b0 AND 0x7"

definition to_op :: "byte \<Rightarrow> op_code" where
  "to_op b0 =
     (let v = b0 AND 0x0F in
      if v = 0x0 then Op_cont else if v = 0x1 then Op_text else if v = 0x2 then Op_binary
      else if v = 0x8 then Op_close else if v = 0x9 then Op_ping else if v = 0xA then Op_pong
      else Op_reserved v)"

definition masked :: "byte \<Rightarrow> bool" where
  "masked b1 \<longleftrightarrow> b1 AND 0x80 \<noteq> 0"

definition len7 :: "byte \<Rightarrow> byte" where
  "len7 b1 = b1 AND 0x7F"

section \<open>The parser\<close>

text \<open>The loop \<open>x = (x << 8) | buf[2 + i]\<close> over the eight length bytes.\<close>

fun be_shift :: "u64 \<Rightarrow> byte list \<Rightarrow> u64" where
  "be_shift x [] = x"
| "be_shift x (b # bs) = be_shift (push_bit 8 x OR ucast b) bs"

text \<open>
  The extended length: \<open>None\<close> when the bytes that hold it are not there yet, otherwise the
  header size and the payload length.
\<close>

definition frame_len :: "byte list \<Rightarrow> (u64 \<times> u64) option" where
  "frame_len inp =
     (let len = ucast (len7 (inp ! 1)) :: u64 in
      if len = 126 then
        (if length inp < 4 then None
         else Some (2 + 2, push_bit 8 (ucast (inp ! 2)) OR ucast (inp ! 3)))
      else if len = 127 then
        (if length inp < 10 then None
         else Some (2 + 8, be_shift 0 (subspan 2 8 inp)))
      else Some (2, len))"

definition parse_frame :: "byte list \<Rightarrow> parse_status \<times> parse_output option" where
  "parse_frame inp =
     (if length inp < 2 then (PS_need_more, None)
      else if rsv (inp ! 0) \<noteq> 0 then (PS_bad_reserved, None)
      else if masked (inp ! 1) then (PS_masked_server, None)
      else case frame_len inp of
        None \<Rightarrow> (PS_need_more, None)
      | Some (hdr, len) \<Rightarrow>
          if of_nat (length inp) < hdr + len then (PS_need_more, None)
          else (PS_ok, Some \<lparr>po_frame = \<lparr>fv_op = to_op (inp ! 0), fv_fin = fin_bit (inp ! 0),
                                        fv_payload = \<lparr>sp_off = unat hdr, sp_size = len\<rparr>,
                                        fv_payload_len = len\<rparr>,
                            po_consumed = hdr + len\<rparr>))"

text \<open>
  Reading the bytes of a span of the input: undefined when the span leaves the input.
\<close>

definition span_bytes :: "byte list \<Rightarrow> span \<Rightarrow> byte list option" where
  "span_bytes inp sp = do {
     _ \<leftarrow> require (sp_off sp + unat (sp_size sp) \<le> length inp);
     Some (subspan (sp_off sp) (unat (sp_size sp)) inp)
   }"

section \<open>The writers\<close>

text \<open>
  The payload masked with the four bytes of \<open>key\<close>: byte \<open>i\<close> is combined with
  \<open>out[mask_offset + (i & (mask_len - 1))]\<close>.
\<close>

definition mask_bytes :: "byte list \<Rightarrow> byte list \<Rightarrow> byte list" where
  "mask_bytes key payload = map (\<lambda>i. key ! (i mod 4) XOR payload ! i) [0..<length payload]"

text \<open>
  \<open>random_bytes\<close>: one call of the random device \<open>rd\<close> per byte, of which the low eight bits
  are kept.
\<close>

fun random_bytes :: "('w \<Rightarrow> u32 \<times> 'w) \<Rightarrow> nat \<Rightarrow> 'w \<Rightarrow> byte list \<times> 'w" where
  "random_bytes rd 0 w = ([], w)"
| "random_bytes rd (Suc len) w =
     (let (r, w) = rd w; (bs, w) = random_bytes rd len w in (ucast r # bs, w))"

text \<open>
  \<open>write_control_frame\<close>: \<open>room\<close> is \<open>output.size()\<close>.  The result is the bytes stored
  from \<open>out[0]\<close> on; their number is the returned size, and none are stored when the frame
  does not fit.
\<close>

definition write_control_frame ::
    "('w \<Rightarrow> u32 \<times> 'w) \<Rightarrow> nat \<Rightarrow> op_code \<Rightarrow> byte list \<Rightarrow> 'w \<Rightarrow> byte list \<times> 'w" where
  "write_control_frame rd room opc payload w =
     (if room < 6 + length payload \<or> 125 < length payload then ([], w)
      else let (key, w) = random_bytes rd 4 w in
        ([0x80 OR op_byte opc, 0x80 OR of_nat (length payload)] @ key @ mask_bytes key payload, w))"

text \<open>\<open>htons\<close> stores the high byte first.\<close>

definition htons_bytes :: "u16 \<Rightarrow> byte list" where
  "htons_bytes c = [ucast (drop_bit 8 c), ucast c]"

definition write_close :: "('w \<Rightarrow> u32 \<times> 'w) \<Rightarrow> nat \<Rightarrow> close_code \<Rightarrow> 'w \<Rightarrow> byte list \<times> 'w" where
  "write_close rd room code w =
     write_control_frame rd room Op_close (htons_bytes (close_value code)) w"

section \<open>Reference encoding of RFC 6455\<close>

text \<open>
  The specification side: what a server puts on the wire for one unmasked frame, with the
  shortest length encoding (RFC 6455, section 5.2), and how a server reads a masked client frame
  with a short payload.  These are not part of the sources; the theorems below relate the
  sources to them.
\<close>

definition op_ok :: "op_code \<Rightarrow> bool" where
  "op_ok opc =
     (case opc of Op_reserved b \<Rightarrow> b \<in> {3, 4, 5, 6, 7, 0xB, 0xC, 0xD, 0xE, 0xF} | _ \<Rightarrow> True)"

definition be64 :: "u64 \<Rightarrow> byte list" where
  "be64 x = map (\<lambda>i. ucast (drop_bit (56 - 8 * i) x)) [0..<8]"

definition len_bytes :: "nat \<Rightarrow> byte list" where
  "len_bytes n =
     (if n < 126 then [of_nat n]
      else if n < 2 ^ 16 then 126 # htons_bytes (of_nat n)
      else 127 # be64 (of_nat n))"

definition hdr_size :: "nat \<Rightarrow> nat" where
  "hdr_size n = (if n < 126 then 2 else if n < 2 ^ 16 then 4 else 10)"

definition server_frame :: "bool \<Rightarrow> op_code \<Rightarrow> byte list \<Rightarrow> byte list" where
  "server_frame fin opc payload =
     ((if fin then 0x80 else 0) OR op_byte opc) # len_bytes (length payload) @ payload"

fun client_frame :: "byte list \<Rightarrow> (bool \<times> op_code \<times> byte list) option" where
  "client_frame (b0 # b1 # k0 # k1 # k2 # k3 # data) =
     (if masked b1 \<and> unat (len7 b1) < 126 \<and> length data = unat (len7 b1) \<and> rsv b0 = 0
      then Some (fin_bit b0, to_op b0, mask_bytes [k0, k1, k2, k3] data) else None)"
| "client_frame _ = None"

section \<open>Bit-level facts\<close>

lemma small_and: "n < 128 \<Longrightarrow> (of_nat n :: byte) AND 0x7F = of_nat n"
proof -
  assume "n < 128"
  have "(of_nat n :: byte) AND 0x7F = take_bit 7 (of_nat n)"
    by (simp add: take_bit_eq_mask mask_eq_exp_minus_1)
  also have "\<dots> = of_nat (take_bit 7 n)" by (simp add: of_nat_take_bit)
  also have "take_bit 7 n = n" using \<open>n < 128\<close> by (simp add: take_bit_eq_mod)
  finally show ?thesis .
qed

lemma small_mask: "n < 128 \<Longrightarrow> (of_nat n :: byte) AND 0x80 = 0"
proof -
  assume n: "n < 128"
  have "(of_nat n :: byte) AND 0x80 = (of_nat n AND 0x7F) AND 0x80" using small_and [OF n] by simp
  also have "\<dots> = 0" by (simp add: and.assoc)
  finally show ?thesis .
qed

lemma op_header:
  assumes "op_ok opc"
  shows "to_op ((if fin then 0x80 else 0) OR op_byte opc) = opc"
    and "rsv ((if fin then 0x80 else 0) OR op_byte opc) = 0"
    and "fin_bit ((if fin then 0x80 else 0) OR op_byte opc) = fin"
  using assms
  by (cases opc; cases fin; force simp: op_ok_def op_byte_def to_op_def rsv_def fin_bit_def)+

lemma be64_eq:
  "be64 x = [ucast (drop_bit 56 x), ucast (drop_bit 48 x), ucast (drop_bit 40 x),
             ucast (drop_bit 32 x), ucast (drop_bit 24 x), ucast (drop_bit 16 x),
             ucast (drop_bit 8 x), ucast x]"
  by (simp add: be64_def upt_rec)

lemma be_step:
  "push_bit 8 (drop_bit (n + 8) x) OR ucast (ucast (drop_bit n x) :: byte) = drop_bit n (x :: u64)"
  by (rule bit_word_eqI) (auto simp: bit_simps not_less add.commute dest: bit_imp_le_length)

lemma be_first: "ucast (ucast (drop_bit 56 x) :: byte) = drop_bit 56 (x :: u64)"
  by (rule bit_word_eqI) (auto simp: bit_simps dest: bit_imp_le_length)

lemma be_shift_be64: "be_shift 0 (be64 x) = x"
  using be_step [of 48 x] be_step [of 40 x] be_step [of 32 x] be_step [of 24 x]
    be_step [of 16 x] be_step [of 8 x] be_step [of 0 x]
  by (simp add: be64_eq be_first)

lemma be16:
  "push_bit 8 (ucast (ucast (drop_bit 8 x) :: byte)) OR ucast (ucast x :: byte)
     = (ucast (x :: u16) :: u64)"
  by (rule bit_word_eqI) (auto simp: bit_simps not_less dest: bit_imp_le_length)

lemma unat_u64 [simp]: "n < 2 ^ 64 \<Longrightarrow> unat (of_nat n :: u64) = n"
  by (simp add: unsigned_of_nat take_bit_nat_eq_self)

lemma of_nat_u64_neq: "n < 126 \<Longrightarrow> (of_nat n :: u64) \<noteq> 126" "n < 126 \<Longrightarrow> (of_nat n :: u64) \<noteq> 127"
  by (auto dest!: arg_cong [where f = unat])

lemma ucast_of_nat: "n < 2 ^ LENGTH('a) \<Longrightarrow> LENGTH('a) \<le> LENGTH('b) \<Longrightarrow>
    (ucast (of_nat n :: 'a::len word) :: 'b::len word) = of_nat n"
  by (simp add: unsigned_of_nat take_bit_nat_eq_self)

section \<open>Helper lemmas\<close>

lemma length_be64 [simp]: "length (be64 x) = 8" by (simp add: be64_eq)

lemma len7_of_nat: "n < 126 \<Longrightarrow> len7 (of_nat n) = of_nat n"
  by (simp add: len7_def small_and)

lemma masked_of_nat: "n < 128 \<Longrightarrow> \<not> masked (of_nat n)"
  by (simp add: masked_def small_mask)

lemma length_len_bytes: "length (len_bytes n) = hdr_size n - 1"
  by (simp add: len_bytes_def hdr_size_def htons_bytes_def)

lemma len_bytes_head: "\<not> masked (hd (len_bytes n))" "len_bytes n \<noteq> []"
  by (auto simp: len_bytes_def masked_of_nat) (auto simp: masked_def)

lemma frame_len_len_bytes:
  assumes "n < 2 ^ 64"
  shows "frame_len (b0 # len_bytes n @ rest) = Some (of_nat (hdr_size n), of_nat n)"
proof -
  consider "n < 126" | "126 \<le> n" "n < 2 ^ 16" | "2 ^ 16 \<le> n" by linarith
  then show ?thesis
  proof cases
    case 1
    then have "ucast (len7 (of_nat n)) = (of_nat n :: u64)"
      by (simp add: len7_of_nat ucast_of_nat)
    moreover have "(of_nat n :: u64) \<noteq> 126" "(of_nat n :: u64) \<noteq> 127"
      using 1 by (simp_all add: of_nat_u64_neq) 
    ultimately show ?thesis using 1 by (simp add: frame_len_def len_bytes_def hdr_size_def)
  next
    case 2
    then show ?thesis
      by (simp add: frame_len_def len_bytes_def hdr_size_def htons_bytes_def len7_def be16 ucast_of_nat)
  next
    case 3
    have "subspan 2 8 (b0 # 127 # be64 (of_nat n) @ rest) = be64 (of_nat n)"
      by (simp add: subspan_def numeral_2_eq_2)
    with 3 show ?thesis
      by (simp add: frame_len_def len_bytes_def hdr_size_def len7_def be_shift_be64)
  qed
qed

lemma length_server_frame:
  "length (server_frame fin opc payload) = hdr_size (length payload) + length payload"
  by (simp add: server_frame_def length_len_bytes hdr_size_def)

lemma server_frame_nth:
  "server_frame fin opc payload ! 0 = (if fin then 0x80 else 0) OR op_byte opc"
  "\<not> masked ((server_frame fin opc payload @ rest) ! 1)"
  using len_bytes_head [of "length payload"]
  by (simp_all add: server_frame_def nth_append hd_conv_nth)

lemma unat_hdr_len:
  assumes "n + 10 < 2 ^ 64"
  shows "unat (of_nat (hdr_size n) + of_nat n :: u64) = hdr_size n + n"
    and "unat (of_nat (hdr_size n) :: u64) = hdr_size n"
  using assms by (simp_all add: hdr_size_def flip: of_nat_add)

lemma parse_server_frame:
  assumes "op_ok opc" and "length payload + length rest + 10 < 2 ^ 64"
  shows "parse_frame (server_frame fin opc payload @ rest) =
     (PS_ok, Some \<lparr>po_frame = \<lparr>fv_op = opc, fv_fin = fin,
         fv_payload = \<lparr>sp_off = hdr_size (length payload), sp_size = of_nat (length payload)\<rparr>,
         fv_payload_len = of_nat (length payload)\<rparr>,
       po_consumed = of_nat (length (server_frame fin opc payload))\<rparr>)
   \<and> span_bytes (server_frame fin opc payload @ rest)
       \<lparr>sp_off = hdr_size (length payload), sp_size = of_nat (length payload)\<rparr> = Some payload"
proof
  let ?n = "length payload" and ?inp = "server_frame fin opc payload @ rest"
  let ?b0 = "(if fin then 0x80 else 0) OR op_byte opc"
  have len: "length ?inp = hdr_size ?n + ?n + length rest"
    by (simp add: length_server_frame)
  have fl: "frame_len ?inp = Some (of_nat (hdr_size ?n), of_nat ?n)"
    using assms(2) frame_len_len_bytes [of ?n ?b0 "payload @ rest"] by (simp add: server_frame_def)
  have fits: "\<not> of_nat (length ?inp) < (of_nat (hdr_size ?n) + of_nat ?n :: u64)"
  proof -
    have "hdr_size ?n \<le> 10" by (simp add: hdr_size_def)
    with assms(2) have "length ?inp < 2 ^ 64" and "?n + 10 < 2 ^ 64" unfolding len by linarith+
    then show ?thesis by (simp only: word_less_nat_alt unat_hdr_len unat_u64 len)
  qed
  have ge2: "\<not> length ?inp < 2" unfolding len by (simp add: hdr_size_def)
  have b0: "?inp ! 0 = ?b0" by (simp add: server_frame_def)
  show "parse_frame ?inp =
     (PS_ok, Some \<lparr>po_frame = \<lparr>fv_op = opc, fv_fin = fin,
         fv_payload = \<lparr>sp_off = hdr_size ?n, sp_size = of_nat ?n\<rparr>, fv_payload_len = of_nat ?n\<rparr>,
       po_consumed = of_nat (length (server_frame fin opc payload))\<rparr>)"
    unfolding parse_frame_def b0 fl using ge2 fits assms
    by (simp add: op_header server_frame_nth unat_hdr_len length_server_frame flip: One_nat_def)
  show "span_bytes ?inp \<lparr>sp_off = hdr_size ?n, sp_size = of_nat ?n\<rparr> = Some payload"
    using assms(2) by (simp add: span_bytes_def len subspan_def server_frame_def length_len_bytes hdr_size_def)
qed

lemma parse_frame_short: "length inp < 2 \<Longrightarrow> parse_frame inp = (PS_need_more, None)"
  by (simp add: parse_frame_def)

lemma frame_len_append:
  "2 \<le> length xs \<Longrightarrow> frame_len xs = Some r \<Longrightarrow> frame_len (xs @ ys) = Some r"
  by (auto simp: frame_len_def Let_def nth_append subspan_def split: if_splits)

lemma parse_frame_append:
  assumes "parse_frame xs = (st, po)" and "st \<noteq> PS_need_more" and "length (xs @ ys) < 2 ^ 64"
  shows "parse_frame (xs @ ys) = (st, po)"
proof -
  from assms(1,2) have ge2: "2 \<le> length xs"
    by (auto simp: parse_frame_def split: if_splits)
  then have hd: "(xs @ ys) ! 0 = xs ! 0" "(xs @ ys) ! 1 = xs ! 1" by (auto simp: nth_append)
  have len: "of_nat (length xs) \<le> (of_nat (length (xs @ ys)) :: u64)"
    using assms(3) by (simp only: word_le_nat_alt unat_u64) simp
  show ?thesis
  proof (cases "frame_len xs")
    case None
    with assms ge2 show ?thesis by (auto simp: parse_frame_def hd hd [simplified] split: if_splits)
  next
    case (Some r)
    with frame_len_append [OF ge2] have "frame_len (xs @ ys) = Some r" by blast
    moreover have "\<not> length (xs @ ys) < 2" using ge2 by simp
    ultimately show ?thesis
      using Some assms ge2 len by (cases r) (auto simp: parse_frame_def hd hd [simplified] simp del: of_nat_add length_append split: if_splits)
  qed
qed

lemma frame_len_cases:
  assumes "2 \<le> length inp" "frame_len inp = Some (hdr, len)"
  shows "hdr \<in> {2, 4, 10}" and "unat hdr \<le> length inp"
  using assms by (auto simp: frame_len_def Let_def split: if_splits)

lemma parse_frame_bounds:
  assumes ok: "parse_frame inp = (PS_ok, Some po)" and len: "length inp < 2 ^ 64"
    and sp: "sp = fv_payload (po_frame po)"
    and nowrap: "sp_off sp + unat (sp_size sp) < 2 ^ 64"
  shows "unat (po_consumed po) = sp_off sp + unat (sp_size sp)"
    and "2 \<le> unat (po_consumed po)" and "unat (po_consumed po) \<le> length inp"
    and "span_bytes inp sp = Some (subspan (sp_off sp) (unat (sp_size sp)) inp)"
    and "fv_payload_len (po_frame po) = sp_size sp"
proof -
  from ok obtain hdr l where ge2: "2 \<le> length inp" and fl: "frame_len inp = Some (hdr, l)"
    and fits: "\<not> of_nat (length inp) < hdr + l"
    and po: "po = \<lparr>po_frame = \<lparr>fv_op = to_op (inp ! 0), fv_fin = fin_bit (inp ! 0),
                                        fv_payload = \<lparr>sp_off = unat hdr, sp_size = l\<rparr>,
                                        fv_payload_len = l\<rparr>,
                            po_consumed = hdr + l\<rparr>"
    by (auto simp: parse_frame_def split: if_splits option.splits)
  from nowrap have sum: "unat (hdr + l) = unat hdr + unat l"
    by (simp add: sp po unat_word_ariths)
  show "unat (po_consumed po) = sp_off sp + unat (sp_size sp)" by (simp add: po sp sum)
  from frame_len_cases(1) [OF ge2 fl] have "2 \<le> unat hdr" by auto
  then show "2 \<le> unat (po_consumed po)" by (simp add: po sum)
  from fits len have le: "unat hdr + unat l \<le> length inp"
    by (simp add: word_less_nat_alt sum not_less)
  then show "unat (po_consumed po) \<le> length inp" by (simp add: po sum)
  from le show "span_bytes inp sp = Some (subspan (sp_off sp) (unat (sp_size sp)) inp)"
    by (simp add: span_bytes_def sp po)
  show "fv_payload_len (po_frame po) = sp_size sp" by (simp add: sp po)
qed

lemma parse_frame_take:
  assumes "op_ok opc" and "length payload + 10 < 2 ^ 64"
    and "k < length (server_frame fin opc payload)"
  shows "parse_frame (take k (server_frame fin opc payload)) = (PS_need_more, None)"
proof (cases "k < 2")
  case True
  then show ?thesis by (simp add: parse_frame_short)
next
  case False
  let ?f = "server_frame fin opc payload" and ?n = "length payload"
  let ?p = "take k ?f"
  from assms(3) have k: "length ?p = k" by simp
  from False have hd: "?p ! 0 = ?f ! 0" "?p ! 1 = ?f ! 1" by simp_all
  have full: "frame_len ?f = Some (of_nat (hdr_size ?n), of_nat ?n)"
    using assms(2) frame_len_len_bytes [of ?n "(if fin then 0x80 else 0) OR op_byte opc" payload]
    by (simp add: server_frame_def)
  have "of_nat k < hdr + l" if "frame_len ?p = Some (hdr, l)" for hdr l
  proof -
    from frame_len_append [OF _ that, of "drop k ?f"] False k full
    have "hdr = of_nat (hdr_size ?n)" and "l = of_nat ?n" by simp_all
    moreover have "hdr_size ?n \<le> 10" by (simp add: hdr_size_def)
    ultimately show ?thesis
      using assms(2,3) by (simp only: word_less_nat_alt unat_hdr_len unat_u64 length_server_frame)
  qed
  moreover have "rsv (?p ! 0) = 0" "\<not> masked (?p ! 1)"
    using hd assms(1) server_frame_nth(2) [of fin opc payload "[]"]
    by (simp_all add: server_frame_nth(1) op_header)
  ultimately show ?thesis
    using False assms(3) by (auto simp: parse_frame_def min_def split: option.splits)
qed

lemma length_random_bytes [simp]: "length (fst (random_bytes rd n w)) = n"
  by (induction n arbitrary: w) (simp_all add: Let_def case_prod_unfold)

lemma length_mask_bytes [simp]: "length (mask_bytes key payload) = length payload"
  by (simp add: mask_bytes_def)

lemma mask_bytes_involutive [simp]: "mask_bytes key (mask_bytes key payload) = payload"
  by (rule nth_equalityI) (simp_all add: mask_bytes_def flip: xor.assoc)

lemma control_len:
  assumes "n \<le> 125"
  shows "masked (0x80 OR of_nat n)" and "unat (len7 (0x80 OR of_nat n)) = n"
proof -
  have "(0x80 OR of_nat n) AND 0x80 = (0x80 AND 0x80) OR (of_nat n AND 0x80 :: byte)"
    by (simp add: bit.conj_disj_distrib2)
  then show "masked (0x80 OR of_nat n)" using assms by (simp add: masked_def small_mask)
  have "(0x80 OR of_nat n) AND 0x7F = (0x80 AND 0x7F) OR (of_nat n AND 0x7F :: byte)"
    by (simp add: bit.conj_disj_distrib2)
  then show "unat (len7 (0x80 OR of_nat n)) = n"
    using assms by (simp add: len7_def small_and unsigned_of_nat take_bit_nat_eq_self)
qed

lemma control_frame_client:
  assumes "op_ok opc" and "length payload \<le> 125" and "6 + length payload \<le> room"
  shows "length (fst (write_control_frame rd room opc payload w)) = 6 + length payload"
    and "client_frame (fst (write_control_frame rd room opc payload w)) = Some (True, opc, payload)"
proof -
  let ?key = "fst (random_bytes rd 4 w)"
  have fr: "fst (write_control_frame rd room opc payload w) =
      [0x80 OR op_byte opc, 0x80 OR of_nat (length payload)] @ ?key @ mask_bytes ?key payload"
    using assms(2,3) by (simp add: write_control_frame_def split: prod.splits)
  then show "length (fst (write_control_frame rd room opc payload w)) = 6 + length payload"
    by simp
  obtain k0 k1 k2 k3 where key: "?key = [k0, k1, k2, k3]"
    using length_random_bytes [of rd 4 w] by (auto simp: numeral_eq_Suc length_Suc_conv)
  show "client_frame (fst (write_control_frame rd room opc payload w)) = Some (True, opc, payload)"
    using assms control_len [OF assms(2)] op_header [OF assms(1), of True]
    by (simp add: fr key)
qed

lemma length_write_control_frame_le: "length (fst (write_control_frame rd room opc payload w)) \<le> room"
  by (simp add: write_control_frame_def case_prod_unfold Let_def)

section \<open>Properties\<close>

text \<open>C3: every frame a server may send is parsed back: for each opcode, either value of FIN and
  every payload whose size fits the 64-bit arithmetic, and whatever bytes follow the frame in the
  receive buffer, the parser reports exactly the opcode, the FIN bit, the payload bytes and the
  number of bytes of the frame, across all three length encodings.\<close>

theorem parse_frame_roundtrip:
  assumes "op_ok opc" and "length payload + length rest + 10 < 2 ^ 64"
  shows "\<exists>po. parse_frame (server_frame fin opc payload @ rest) = (PS_ok, Some po)
     \<and> fv_op (po_frame po) = opc \<and> fv_fin (po_frame po) = fin
     \<and> fv_payload_len (po_frame po) = of_nat (length payload)
     \<and> span_bytes (server_frame fin opc payload @ rest) (fv_payload (po_frame po)) = Some payload
     \<and> unat (po_consumed po) = length (server_frame fin opc payload)"
proof -
  have "hdr_size (length payload) \<le> 10" by (simp add: hdr_size_def)
  with assms(2) have "length (server_frame fin opc payload) < 2 ^ 64"
    unfolding length_server_frame by linarith
  then show ?thesis using parse_server_frame [OF assms, of fin] by (simp add: unat_u64)
qed

theorem parse_frame_roundtrip_witness:
  "op_ok Op_text \<and> length [0x48, 0x69 :: byte] + length [0x81 :: byte] + 10 < 2 ^ 64
   \<and> (\<exists>po. parse_frame (server_frame True Op_text [0x48, 0x69] @ [0x81]) = (PS_ok, Some po)
     \<and> fv_op (po_frame po) = Op_text \<and> fv_fin (po_frame po) = True
     \<and> fv_payload_len (po_frame po) = of_nat (length [0x48, 0x69 :: byte])
     \<and> span_bytes (server_frame True Op_text [0x48, 0x69] @ [0x81]) (fv_payload (po_frame po))
         = Some [0x48, 0x69]
     \<and> unat (po_consumed po) = length (server_frame True Op_text [0x48, 0x69]))"
proof -
  have h: "op_ok Op_text" "length [0x48, 0x69 :: byte] + length [0x81 :: byte] + 10 < 2 ^ 64"
    by (simp_all add: op_ok_def)
  show ?thesis using h parse_frame_roundtrip [OF h, of True] by blast
qed

text \<open>C29: incremental parsing is safe: on every proper prefix of a frame the parser asks for more
  bytes, it never reports a frame or an error early.\<close>

theorem parse_frame_prefix:
  assumes "op_ok opc" and "length payload + 10 < 2 ^ 64"
    and "k < length (server_frame fin opc payload)"
  shows "parse_frame (take k (server_frame fin opc payload)) = (PS_need_more, None)"
  using assms by (rule parse_frame_take)

theorem parse_frame_prefix_witness:
  "op_ok Op_ping \<and> length [0x48 :: byte] + 10 < 2 ^ 64
   \<and> 2 < length (server_frame True Op_ping [0x48])
   \<and> parse_frame (take 2 (server_frame True Op_ping [0x48])) = (PS_need_more, None)"
proof -
  have h: "op_ok Op_ping" "length [0x48 :: byte] + 10 < 2 ^ 64"
    "2 < length (server_frame True Op_ping [0x48])"
    by (simp_all add: op_ok_def length_server_frame hdr_size_def)
  show ?thesis using h parse_frame_prefix [OF h] by blast
qed

text \<open>A verdict of the parser is final: once it reports a frame or an error, more bytes arriving
  behind the input change nothing of the report.\<close>

theorem parse_frame_stable:
  assumes "parse_frame xs = (st, po)" and "st \<noteq> PS_need_more" and "length (xs @ ys) < 2 ^ 64"
  shows "parse_frame (xs @ ys) = (st, po)"
  using assms by (rule parse_frame_append)

theorem parse_frame_stable_witness:
  "parse_frame [0xC1, 0x00] = (PS_bad_reserved, None) \<and> PS_bad_reserved \<noteq> PS_need_more
   \<and> length ([0xC1, 0x00] @ [0x05 :: byte]) < 2 ^ 64
   \<and> parse_frame ([0xC1, 0x00] @ [0x05]) = (PS_bad_reserved, None)"
proof -
  have h: "parse_frame [0xC1, 0x00] = (PS_bad_reserved, None)" "PS_bad_reserved \<noteq> PS_need_more"
    "length ([0xC1, 0x00] @ [0x05 :: byte]) < 2 ^ 64"
    by (simp_all add: parse_frame_def rsv_def)
  show ?thesis using h parse_frame_stable [OF h] by blast
qed

text \<open>C30: as long as header and payload size together fit in 64 bits, a successful parse stays in the
  input: the payload span is a readable part of the input, the frame is at least two bytes long, its
  size is header plus payload and is not larger than the input.\<close>

theorem parse_frame_in_range:
  assumes "parse_frame inp = (PS_ok, Some po)" and "length inp < 2 ^ 64"
    and "sp_off (fv_payload (po_frame po)) + unat (sp_size (fv_payload (po_frame po))) < 2 ^ 64"
  shows "2 \<le> unat (po_consumed po) \<and> unat (po_consumed po) \<le> length inp
     \<and> unat (po_consumed po)
         = sp_off (fv_payload (po_frame po)) + unat (sp_size (fv_payload (po_frame po)))
     \<and> (\<exists>bs. span_bytes inp (fv_payload (po_frame po)) = Some bs
          \<and> length bs = unat (fv_payload_len (po_frame po)))"
  using parse_frame_bounds [OF assms(1,2) refl assms(3)] by simp

theorem parse_frame_in_range_witness:
  "\<exists>po. parse_frame [0x81, 0x01, 0x41] = (PS_ok, Some po) \<and> length [0x81, 0x01, 0x41 :: byte] < 2 ^ 64
   \<and> sp_off (fv_payload (po_frame po)) + unat (sp_size (fv_payload (po_frame po))) < 2 ^ 64
   \<and> 2 \<le> unat (po_consumed po) \<and> unat (po_consumed po) \<le> length [0x81, 0x01, 0x41 :: byte]"
proof -
  let ?po = "\<lparr>po_frame = \<lparr>fv_op = Op_text, fv_fin = True,
      fv_payload = \<lparr>sp_off = 2, sp_size = 1\<rparr>, fv_payload_len = 1\<rparr>, po_consumed = 3\<rparr>"
  have h: "parse_frame [0x81, 0x01, 0x41] = (PS_ok, Some ?po)" "length [0x81, 0x01, 0x41 :: byte] < 2 ^ 64"
    "sp_off (fv_payload (po_frame ?po)) + unat (sp_size (fv_payload (po_frame ?po))) < 2 ^ 64"
    by (simp_all add: parse_frame_def frame_len_def rsv_def masked_def len7_def to_op_def fin_bit_def)
  show ?thesis using h parse_frame_in_range [OF h] by blast
qed




end
