(* ===== verification/Base64.thy ===== *)
theory Base64
  imports Manet_Prelude
begin

text \<open>
  \<^verbatim>\<open>include/manet/utils/base64.hpp\<close>: the encoder used for the handshake's keys, and the
  decoder of RFC 4648 it is proved against.  The array sizes \<open>M\<close> and \<open>N\<close> of the template are
  the lengths of the lists.
\<close>

unbundle bit_operations_syntax

section \<open>The encoder\<close>

definition table :: string where
  "table = ''ABCDEFGHIJKLMNOPQRSTUVWXYZabcdefghijklmnopqrstuvwxyz0123456789+/''"

definition table_at :: "byte \<Rightarrow> char" where
  "table_at v = table ! unat v"

fun base64_encode :: "byte list \<Rightarrow> string" where
  "base64_encode (a # b # c # src) =
     table_at (drop_bit 2 a) #
     table_at (push_bit 4 (a AND 0x03) OR drop_bit 4 b) #
     table_at (push_bit 2 (b AND 0x0f) OR drop_bit 6 c) #
     table_at (c AND 0x3f) # base64_encode src"
| "base64_encode [a] =
     [table_at (drop_bit 2 a), table_at (push_bit 4 (a AND 0x03)), CHR ''='', CHR ''='']"
| "base64_encode [a, b] =
     [table_at (drop_bit 2 a), table_at (push_bit 4 (a AND 0x03) OR drop_bit 4 b),
      table_at (push_bit 2 (b AND 0x0f)), CHR ''='']"
| "base64_encode [] = []"

section \<open>The decoder of RFC 4648\<close>

fun find_index :: "char \<Rightarrow> string \<Rightarrow> nat option" where
  "find_index c [] = None"
| "find_index c (d # ds) = (if c = d then Some 0 else map_option Suc (find_index c ds))"

definition digit :: "char \<Rightarrow> byte option" where
  "digit c = map_option of_nat (find_index c table)"

fun base64_decode :: "string \<Rightarrow> byte list option" where
  "base64_decode [] = Some []"
| "base64_decode (c0 # c1 # c2 # c3 # cs) = do {
     v0 \<leftarrow> digit c0; v1 \<leftarrow> digit c1;
     if c2 = CHR ''='' then
       (if c3 = CHR ''='' \<and> cs = [] then Some [push_bit 2 v0 OR drop_bit 4 v1] else None)
     else do {
       v2 \<leftarrow> digit c2;
       if c3 = CHR ''='' then
         (if cs = [] then Some [push_bit 2 v0 OR drop_bit 4 v1, push_bit 4 v1 OR drop_bit 2 v2] else None)
       else do {
         v3 \<leftarrow> digit c3;
         bs \<leftarrow> base64_decode cs;
         Some ((push_bit 2 v0 OR drop_bit 4 v1) # (push_bit 4 v1 OR drop_bit 2 v2) # (push_bit 6 v2 OR v3) # bs)
       }
     }
   }"
| "base64_decode _ = None"

section \<open>Helper lemmas\<close>

lemma length_base64: "length (base64_encode bs) = 4 * ((length bs + 2) div 3)"
proof (induction bs rule: base64_encode.induct)
  case (1 a b c src)
  have "(length (a # b # c # src) + 2) div 3 = (length src + 2) div 3 + 1" by simp
  with 1 show ?case by (simp only: base64_encode.simps length_Cons) simp
qed simp_all

lemma find_index_nth: "distinct ds \<Longrightarrow> i < length ds \<Longrightarrow> find_index (ds ! i) ds = Some i"
proof (induction ds arbitrary: i)
  case (Cons d ds)
  then show ?case by (cases i) auto
qed simp

lemma table_facts: "distinct table" "length table = 64" "CHR ''='' \<notin> set table"
  by (simp_all add: table_def)

lemma digit_table: "v < 64 \<Longrightarrow> digit (table_at v) = Some v"
proof -
  assume "v < 64"
  then have "unat v < 64" by (simp add: word_less_nat_alt)
  with find_index_nth [OF table_facts(1), of "unat v"] show ?thesis
    by (simp add: digit_def table_at_def table_facts(2))
qed

lemma table_not_pad: "v < 64 \<Longrightarrow> table_at v \<noteq> CHR ''=''"
proof -
  assume "v < 64"
  then have "unat v < length table" by (simp add: word_less_nat_alt table_facts(2))
  then have "table_at v \<in> set table" by (simp add: table_at_def)
  with table_facts(3) show ?thesis by metis
qed

lemma byte_masks: "(0x03 :: byte) = mask 2" "(0x0f :: byte) = mask 4" "(0x3f :: byte) = mask 6"
  by (simp_all add: mask_eq_exp_minus_1)

lemma less_64I: "take_bit 6 v = v \<Longrightarrow> v < (64 :: byte)"
proof -
  assume "take_bit 6 v = v"
  then have "unat v = take_bit 6 (unat v)" by (metis unsigned_take_bit_eq)
  then show ?thesis using take_bit_nat_less_exp [of 6 "unat v"] by (simp add: word_less_nat_alt)
qed

lemma high_bit: "8 \<le> n \<Longrightarrow> \<not> bit (a :: byte) n"
  using bit_imp_le_length [of a n] by auto

lemmas sextet_bits =
  bit_or_iff bit_and_iff bit_push_bit_iff bit_drop_bit_eq bit_take_bit_iff comp_def bit_mask_iff byte_masks

lemma byte_eqI:
  assumes "bit a 0 = bit b 0" "bit a 1 = bit b 1" "bit a 2 = bit b 2" "bit a 3 = bit b 3"
    "bit a 4 = bit b 4" "bit a 5 = bit b 5" "bit a 6 = bit b 6" "bit a 7 = bit b 7"
  shows "a = (b :: byte)"
proof (rule bit_word_eqI)
  fix n assume "n < LENGTH(8)"
  then have "n \<in> {0, 1, 2, 3, 4, 5, 6, 7}" by auto
  with assms show "bit a n = bit b n" by auto
qed

lemma sextet_range:
  "drop_bit 2 a < (64 :: byte)" "push_bit 4 (a AND 0x03) OR drop_bit 4 b < (64 :: byte)"
  "push_bit 2 (b AND 0x0f) OR drop_bit 6 c < (64 :: byte)" "c AND 0x3f < (64 :: byte)"
  "push_bit 4 (a AND 0x03) < (64 :: byte)" "push_bit 2 (b AND 0x0f) < (64 :: byte)"
  by (rule less_64I; rule byte_eqI; simp only: sextet_bits; simp add: high_bit)+

lemma sextet_join:
  "push_bit 2 (drop_bit 2 a) OR drop_bit 4 (push_bit 4 (a AND 0x03) OR drop_bit 4 b) = (a :: byte)"
  "push_bit 4 (push_bit 4 (a AND 0x03) OR drop_bit 4 b) OR drop_bit 2 (push_bit 2 (b AND 0x0f) OR drop_bit 6 c) = (b :: byte)"
  "push_bit 6 (push_bit 2 (b AND 0x0f) OR drop_bit 6 c) OR (c AND 0x3f) = (c :: byte)"
  "push_bit 2 (drop_bit 2 a) OR drop_bit 4 (push_bit 4 (a AND 0x03)) = (a :: byte)"
  "push_bit 4 (push_bit 4 (a AND 0x03) OR drop_bit 4 b) OR drop_bit 2 (push_bit 2 (b AND 0x0f)) = (b :: byte)"
  by (rule byte_eqI; simp only: sextet_bits; simp add: high_bit)+

lemmas sextet = digit_table table_not_pad sextet_range sextet_join

lemma decode_encode: "base64_decode (base64_encode bs) = Some bs"
proof (induction bs rule: base64_encode.induct)
  case (1 a b c src)
  then show ?case
    by (simp only: base64_encode.simps base64_decode.simps sextet if_False bind.bind_lunit)
qed (simp_all only: base64_encode.simps base64_decode.simps sextet if_False if_True bind.bind_lunit simp_thms)


end
