(* ===== verification/Ws_Handshake.thy ===== *)
theory Ws_Handshake
  imports Ws_Frame Base64 Transport
begin

text \<open>
  \<^verbatim>\<open>src/manet/protocol/websocket.cc\<close>: the client's opening handshake.  \<open>make_handshake\<close>
  builds the upgrade request and the key the server must answer with; \<open>read_handshake\<close> scans
  the response once, byte by byte, and checks it.  \<open>SHA1\<close> (OpenSSL) and the random device are
  arguments.
\<close>

section \<open>The request\<close>

definition bytes :: "string \<Rightarrow> byte list" where
  "bytes s = map of_char s"

definition crlf :: string where
  "crlf = [CHR 0x0D, CHR 0x0A]"

record header =
  h_name :: string
  h_value :: string

record handshake =
  upgrade_request :: string
  ws_accept_key :: "byte list"

definition kGuid :: string where
  "kGuid = ''258EAFA5-E914-47DA-95CA-C5AB0DC85B11''"

definition extra_header :: "header \<Rightarrow> string" where
  "extra_header h = (if h_name h \<noteq> [] then h_name h @ '': '' @ h_value h @ crlf else [])"

definition make_handshake ::
    "('w \<Rightarrow> u32 \<times> 'w) \<Rightarrow> (byte list \<Rightarrow> byte list) \<Rightarrow> string \<Rightarrow> string \<Rightarrow> header list \<Rightarrow> 'w \<Rightarrow> handshake \<times> 'w" where
  "make_handshake rd sha1 host path extra w =
     (let (nonce, w) = random_bytes rd 16 w;
          key_b64 = base64_encode nonce;
          req = ''GET '' @ path @ '' HTTP/1.1'' @ crlf @
                ''Host: '' @ host @ crlf @
                ''Upgrade: websocket'' @ crlf @
                ''Connection: Upgrade'' @ crlf @
                ''Sec-WebSocket-Key: '' @ key_b64 @ crlf @
                ''Sec-WebSocket-Version: 13'' @ crlf @
                concat (map extra_header extra) @ crlf;
          scratch = bytes key_b64 @ bytes kGuid
      in (\<lparr>upgrade_request = req, ws_accept_key = bytes (base64_encode (sha1 scratch))\<rparr>, w))"

section \<open>The response\<close>

definition advance_crlf_count :: "byte \<Rightarrow> byte \<Rightarrow> byte" where
  "advance_crlf_count crlf_counter chr =
     (if chr = 0x0D then crlf_counter + (if crlf_counter mod 2 = 0 then 1 else 0)
      else if chr = 0x0A then crlf_counter + crlf_counter mod 2
      else 0)"

text \<open>\<open>std::tolower\<close> in the default locale.\<close>

definition tolower :: "byte \<Rightarrow> byte" where
  "tolower b = (if 0x41 \<le> b \<and> b \<le> 0x5A then b + 0x20 else b)"

definition accept_name :: "byte list" where
  "accept_name = bytes ''Sec-WebSocket-Accept:''"

definition name_eq :: "byte list \<Rightarrow> bool" where
  "name_eq sv \<longleftrightarrow> map tolower sv = map tolower accept_name"

text \<open>\<open>for (; input[ws_key_start] == ' '; ws_key_start++)\<close>: undefined beyond the input.\<close>

function skip_sp :: "byte list \<Rightarrow> nat \<Rightarrow> nat option" where
  "skip_sp input ix =
     (if ix < length input then (if input ! ix = 0x20 then skip_sp input (ix + 1) else Some ix)
      else None)"
  by pat_completeness auto
termination
  by (relation "measure (\<lambda>(input, ix). length input - ix)") auto

declare skip_sp.simps [simp del]

text \<open>
  The loop over the input: the counter, the index of the first space, the start of the accept
  value and the index of the byte it stopped at.
\<close>

fun scan ::
    "byte list \<Rightarrow> byte list \<Rightarrow> nat \<Rightarrow> byte \<Rightarrow> nat \<Rightarrow> nat \<Rightarrow> (byte \<times> nat \<times> nat \<times> nat) option" where
  "scan input [] i crlf_counter sp_ix ws_key_start = Some (crlf_counter, sp_ix, ws_key_start, i)"
| "scan input (chr # rest) i crlf_counter sp_ix ws_key_start = do {
     let sp_ix = (if sp_ix = 0 \<and> chr = 0x20 then i else sp_ix);
     ws_key_start \<leftarrow>
       (if ws_key_start = 0 \<and> crlf_counter = 2 \<and> chr = 0x53 \<and> i + length accept_name < length input \<and>
           name_eq (subspan i (length accept_name) input)
        then skip_sp input (i + length accept_name) else Some ws_key_start);
     let crlf_counter = advance_crlf_count crlf_counter chr;
     if crlf_counter = 4 then Some (crlf_counter, sp_ix, ws_key_start, i)
     else scan input rest (i + 1) crlf_counter sp_ix ws_key_start
   }"

function key_end :: "byte list \<Rightarrow> nat \<Rightarrow> nat" where
  "key_end input ix =
     (if ix < length input \<and> input ! ix \<noteq> 0x0D \<and> input ! ix \<noteq> 0x0A then key_end input (ix + 1) else ix)"
  by pat_completeness auto
termination
  by (relation "measure (\<lambda>(input, ix). length input - ix)") auto

declare key_end.simps [simp del]

definition read_handshake :: "byte list \<Rightarrow> buffer \<Rightarrow> (protocol_status \<times> buffer) option" where
  "read_handshake accept_key rx = do {
     let input = rbuf rx;
     (crlf_counter, sp_ix, ws_key_start, i) \<leftarrow> scan input input 0 0 0 0;
     if crlf_counter \<noteq> 4 then Some (P_ok, rx)
     else
       let rx = read (i + 1) rx in
       if sp_ix = 0 \<or> length input \<le> sp_ix + 3 then Some (P_error, rx)
       else if input ! (sp_ix + 1) \<noteq> 0x31 \<or> input ! (sp_ix + 2) \<noteq> 0x30 \<or> input ! (sp_ix + 3) \<noteq> 0x31
       then Some (P_error, rx)
       else do {
         let ws_key_end = key_end input ws_key_start;
         _ \<leftarrow> require (ws_key_start + 28 \<le> length input);
         if subspan ws_key_start (ws_key_end - ws_key_start) input \<noteq> accept_key then Some (P_error, rx)
         else Some (P_ok, rx)
       }
   }"

section \<open>Scanning\<close>

definition no_eol :: "byte list \<Rightarrow> bool" where
  "no_eol xs \<longleftrightarrow> 0x0D \<notin> set xs \<and> 0x0A \<notin> set xs"

lemma no_eol_simps [simp]:
  "no_eol []" "no_eol (x # xs) \<longleftrightarrow> x \<noteq> 0x0D \<and> x \<noteq> 0x0A \<and> no_eol xs"
  "no_eol (xs @ ys) \<longleftrightarrow> no_eol xs \<and> no_eol ys"
  by (auto simp: no_eol_def)

lemma advance_plain: "x \<noteq> 0x0D \<Longrightarrow> x \<noteq> 0x0A \<Longrightarrow> advance_crlf_count c x = 0"
  by (simp add: advance_crlf_count_def)

lemma advance_eol:
  "advance_crlf_count 0 0x0D = 1" "advance_crlf_count 1 0x0A = 2"
  "advance_crlf_count 2 0x0D = 3" "advance_crlf_count 3 0x0A = 4"
  by (simp_all add: advance_crlf_count_def)

text \<open>Inside a line, once the first space is known, nothing changes but the index.\<close>

lemma scan_plain:
  "no_eol xs \<Longrightarrow> sp \<noteq> 0 \<Longrightarrow> scan input (xs @ ys) i 0 sp key = scan input ys (i + length xs) 0 sp key"
  by (induction xs arbitrary: i) (simp_all add: advance_plain)

lemma scan_eol:
  "sp \<noteq> 0 \<Longrightarrow> scan input (0x0D # 0x0A # ys) i 0 sp key = scan input ys (i + 2) 2 sp key"
  by (simp add: advance_eol)

lemma scan_end:
  "sp \<noteq> 0 \<Longrightarrow> scan input (0x0D # 0x0A # ys) i 2 sp key = Some (4, sp, key, i + 1)"
  by (simp add: advance_eol)

text \<open>The first byte of a header line: it starts the accept header or it does not.\<close>

definition is_accept :: "byte list \<Rightarrow> bool" where
  "is_accept l \<longleftrightarrow> length accept_name \<le> length l \<and> hd l = 0x53 \<and> name_eq (take (length accept_name) l)"

lemma accept_name_no_eol: "no_eol (map tolower accept_name)"
  by (simp add: accept_name_def bytes_def tolower_def)

lemma length_accept_name [simp]: "length accept_name = 21"
  by (simp add: accept_name_def bytes_def)

lemma name_eq_line:
  assumes "no_eol l" "name_eq (take 21 (l @ 0x0D # ys))"
  shows "21 \<le> length l"
proof (rule ccontr)
  assume "\<not> 21 \<le> length l"
  then have "0x0D \<in> set (take 21 (l @ 0x0D # ys))"
    by (cases "21 - length l") simp_all
  then have "tolower 0x0D \<in> set (map tolower (take 21 (l @ 0x0D # ys)))" by (metis imageI set_map)
  with assms(2) accept_name_no_eol show False by (simp add: name_eq_def no_eol_def tolower_def)
qed

lemma scan_first:
  assumes "x \<noteq> 0x0D" "x \<noteq> 0x0A" "sp \<noteq> 0" "\<not> (key = 0 \<and> x = 0x53 \<and> name_eq (subspan i 21 input))"
  shows "scan input (x # ys) i 2 sp key = scan input ys (i + 1) 0 sp key"
proof -
  have "\<not> (key = 0 \<and> (2 :: byte) = 2 \<and> x = 0x53 \<and> i + length accept_name < length input \<and>
      name_eq (subspan i (length accept_name) input))" using assms(4) by auto
  then show ?thesis unfolding scan.simps Let_def using assms(1-3) by (simp only: if_False bind.bind_lunit) (simp add: advance_plain)
qed

lemma scan_line:
  assumes l: "no_eol l" "l \<noteq> []" "\<not> is_accept l \<or> key \<noteq> 0"
    and i: "drop i input = l @ 0x0D # 0x0A # ys" and sp: "sp \<noteq> 0"
  shows "scan input (l @ 0x0D # 0x0A # ys) i 2 sp key = scan input ys (i + length l + 2) 2 sp key"
proof -
  obtain x xs where x: "l = x # xs" using l(2) by (cases l) auto
  have sub: "subspan i 21 input = take 21 (l @ 0x0D # 0x0A # ys)" by (simp add: subspan_def i)
  have no: "\<not> (key = 0 \<and> x = 0x53 \<and> name_eq (subspan i 21 input))"
  proof (rule notI)
    assume a: "key = 0 \<and> x = 0x53 \<and> name_eq (subspan i 21 input)"
    then have n: "name_eq (take 21 (l @ 0x0D # 0x0A # ys))" by (simp only: sub)
    from name_eq_line [OF l(1) n] have len: "21 \<le> length l" .
    then have "21 - length l = 0" by simp
    with n have "name_eq (take 21 l)" by (simp only: take_append take_0 append_Nil2)
    with a l(3) len have "is_accept l \<and> key = 0" unfolding is_accept_def length_accept_name by (simp add: x)
    with l(3) show False by blast
  qed
  have "scan input (l @ 0x0D # 0x0A # ys) i 2 sp key = scan input (xs @ 0x0D # 0x0A # ys) (i + 1) 0 sp key"
    unfolding x append_Cons using l(1) by (intro scan_first sp no) (simp_all add: x)
  also have "\<dots> = scan input (0x0D # 0x0A # ys) (i + 1 + length xs) 0 sp key"
    using l(1) sp by (intro scan_plain) (simp_all add: x)
  also have "\<dots> = scan input ys (i + 1 + length xs + 2) 2 sp key" by (rule scan_eol [OF sp])
  also have "i + 1 + length xs + 2 = i + length l + 2" by (simp add: x)
  finally show ?thesis .
qed

definition eol :: "byte list" where "eol = [0x0D, 0x0A]"

definition header_lines :: "byte list list \<Rightarrow> byte list" where
  "header_lines ls = concat (map (\<lambda>l. l @ eol) ls)"

lemma scan_lines:
  assumes "\<forall>l \<in> set ls. no_eol l \<and> l \<noteq> [] \<and> (\<not> is_accept l \<or> key \<noteq> 0)"
    and "drop i input = header_lines ls @ ys" and "sp \<noteq> 0"
  shows "scan input (header_lines ls @ ys) i 2 sp key = scan input ys (i + length (header_lines ls)) 2 sp key"
  using assms
proof (induction ls arbitrary: i)
  case Nil
  then show ?case by (simp add: header_lines_def)
next
  case (Cons l ls)
  let ?i = "i + length l + 2"
  have eq: "header_lines (l # ls) @ ys = l @ 0x0D # 0x0A # header_lines ls @ ys"
    by (simp add: header_lines_def eol_def)
  have d: "drop ?i input = header_lines ls @ ys"
  proof -
    have "drop ?i input = drop (length l + 2) (drop i input)" by (simp add: add.commute add.left_commute)
    then show ?thesis using Cons.prems(2) by (simp add: eq)
  qed
  have "scan input (header_lines (l # ls) @ ys) i 2 sp key = scan input (header_lines ls @ ys) ?i 2 sp key"
    unfolding eq using Cons.prems by (intro scan_line) (simp_all add: eq)
  also have "\<dots> = scan input ys (?i + length (header_lines ls)) 2 sp key"
    using Cons.prems(1,3) d by (intro Cons.IH) simp_all
  finally show ?case by (simp add: header_lines_def eol_def add.assoc add.left_commute)
qed

lemma skip_sp_drop:
  "drop ix input = replicate n 0x20 @ x # ys \<Longrightarrow> x \<noteq> 0x20 \<Longrightarrow> skip_sp input ix = Some (ix + n)"
proof (induction n arbitrary: ix)
  case 0
  then show ?case using drop_ConsD [of ix input] by (subst skip_sp.simps) simp
next
  case (Suc n)
  with drop_ConsD [of ix input] Suc.IH [of "Suc ix"] show ?case by (subst skip_sp.simps) simp
qed

lemma key_end_drop:
  "drop ix input = k @ 0x0D # ys \<Longrightarrow> no_eol k \<Longrightarrow> key_end input ix = ix + length k"
proof (induction k arbitrary: ix)
  case Nil
  then show ?case using drop_ConsD [of ix input] by (subst key_end.simps) simp
next
  case (Cons x k)
  with drop_ConsD [of ix input] Cons.IH [of "Suc ix"] show ?case by (subst key_end.simps) simp
qed

text \<open>
  The response of a server: the status line, header lines, the accept header (its name, spaces and
  the key), more header lines and the empty line.
\<close>

definition accept_line :: "byte list \<Rightarrow> nat \<Rightarrow> byte list \<Rightarrow> byte list" where
  "accept_line name n key = name @ replicate n 0x20 @ key"

definition response :: "byte list \<Rightarrow> byte list list \<Rightarrow> byte list \<Rightarrow> byte list list \<Rightarrow> byte list" where
  "response reason ls accept ls' =
     bytes ''HTTP/1.1 101'' @ reason @ eol @ header_lines ls @ accept @ eol @ header_lines ls' @ eol"

lemma scan_status:
  "scan input (bytes ''HTTP/1.1 101'' @ ys) 0 0 0 0 = scan input ys 12 0 8 0"
  by (simp add: bytes_def advance_crlf_count_def) (simp add: eval_nat_numeral)

lemma scan_accept:
  assumes name: "name_eq name" "hd name = 0x53" and key: "no_eol key" "key \<noteq> []" "hd key \<noteq> 0x20"
    and i: "drop i input = accept_line name n key @ 0x0D # 0x0A # ys" and sp: "sp \<noteq> 0"
  shows "scan input (accept_line name n key @ 0x0D # 0x0A # ys) i 2 sp 0 =
     scan input ys (i + length (accept_line name n key) + 2) 2 sp (i + 21 + n)"
proof -
  have len: "length name = 21" using name(1) by (metis length_accept_name length_map name_eq_def)
  obtain x xs where x: "name = x # xs" using len by (cases name) auto
  obtain k ks where k: "key = k # ks" using key(2) by (cases key) auto
  have "no_eol (map tolower name)" using name(1) accept_name_no_eol by (simp add: name_eq_def)
  then have "no_eol name" by (auto simp: no_eol_def tolower_def image_iff)
  then have line: "x \<noteq> 0x0D" "x \<noteq> 0x0A" "no_eol (xs @ replicate n 0x20 @ key)"
    using key(1) by (auto simp: x no_eol_def)
  have sub: "subspan i 21 input = name" using i len by (simp add: subspan_def accept_line_def)
  have "length (drop i input) = 21 + n + length key + 2 + length ys" using i len by (simp add: accept_line_def)
  then have long: "i + 21 < length input" by simp
  have "drop (i + 21) input = drop 21 (drop i input)" by (simp add: add.commute)
  also have "\<dots> = replicate n 0x20 @ k # ks @ 0x0D # 0x0A # ys" using len by (simp add: i accept_line_def k)
  finally have skip: "skip_sp input (i + 21) = Some (i + 21 + n)" by (rule skip_sp_drop) (use key(3) k in simp)
  let ?ks = "i + 21 + n"
  have "scan input (accept_line name n key @ 0x0D # 0x0A # ys) i 2 sp 0 =
      scan input ((xs @ replicate n 0x20 @ key) @ 0x0D # 0x0A # ys) (i + 1) 0 sp ?ks"
    unfolding accept_line_def x append_Cons append_assoc scan.simps Let_def
    using name sub long skip line sp by (simp add: x advance_plain)
  also have "\<dots> = scan input (0x0D # 0x0A # ys) (i + 1 + length (xs @ replicate n 0x20 @ key)) 0 sp ?ks"
    by (rule scan_plain [OF line(3) sp])
  also have "\<dots> = scan input ys (i + 1 + length (xs @ replicate n 0x20 @ key) + 2) 2 sp ?ks" by (rule scan_eol [OF sp])
  also have "i + 1 + length (xs @ replicate n 0x20 @ key) = i + length (accept_line name n key)"
    by (simp add: accept_line_def x)
  finally show ?thesis .
qed

lemma scan_response:
  assumes ls: "\<forall>l \<in> set ls. no_eol l \<and> l \<noteq> [] \<and> \<not> is_accept l"
    and ls': "\<forall>l \<in> set ls'. no_eol l \<and> l \<noteq> []"
    and reason: "no_eol reason"
    and name: "name_eq name" "hd name = 0x53" and key: "no_eol key" "key \<noteq> []" "hd key \<noteq> 0x20"
    and input: "input = response reason ls (accept_line name n key) ls' @ rest"
  defines "ks \<equiv> 12 + length reason + 2 + length (header_lines ls) + 21 + n"
  shows "scan input input 0 0 0 0 = Some (4, 8, ks, length (response reason ls (accept_line name n key) ls') - 1)"
    and "drop ks input = key @ 0x0D # 0x0A # header_lines ls' @ eol @ rest"
proof -
  let ?line = "accept_line name n key"
  let ?t3 = "header_lines ls' @ 0x0D # 0x0A # rest"
  let ?t2 = "?line @ 0x0D # 0x0A # ?t3"
  let ?t1 = "header_lines ls @ ?t2"
  let ?i1 = "12 + length reason + 2"
  let ?i2 = "?i1 + length (header_lines ls)"
  let ?i3 = "?i2 + length ?line + 2"
  have len: "length name = 21" using name(1) by (metis length_accept_name length_map name_eq_def)
  have eq: "input = bytes ''HTTP/1.1 101'' @ reason @ 0x0D # 0x0A # ?t1"
    by (simp add: input response_def eol_def)
  have d1: "drop ?i1 input = ?t1"
    by (rule drop_length_append [of "bytes ''HTTP/1.1 101'' @ reason @ [0x0D, 0x0A]"]) (simp_all add: eq bytes_def)
  have d2: "drop ?i2 input = ?t2"
  proof -
    have "drop ?i2 input = drop (length (header_lines ls)) (drop ?i1 input)" by (simp add: add.commute)
    also have "\<dots> = ?t2" unfolding d1 by (rule drop_length_append) simp_all
    finally show ?thesis .
  qed
  have d3: "drop ?i3 input = ?t3"
  proof -
    have "drop ?i3 input = drop (length ?line + 2) (drop ?i2 input)" by (simp add: add.commute add.left_commute)
    then show ?thesis by (simp only: d2) simp
  qed
  have "scan input input 0 0 0 0 = scan input (reason @ 0x0D # 0x0A # ?t1) 12 0 8 0"
    by (subst (2) eq) (rule scan_status)
  also have "\<dots> = scan input (0x0D # 0x0A # ?t1) (12 + length reason) 0 8 0"
    using reason by (intro scan_plain) simp_all
  also have "\<dots> = scan input ?t1 ?i1 2 8 0" by (intro scan_eol) simp
  also have "\<dots> = scan input ?t2 ?i2 2 8 0" using ls d1 by (intro scan_lines) simp_all
  also have "\<dots> = scan input ?t3 ?i3 2 8 (?i2 + 21 + n)"
    by (rule scan_accept [OF name key d2]) simp
  also have "\<dots> = scan input (0x0D # 0x0A # rest) (?i3 + length (header_lines ls')) 2 8 (?i2 + 21 + n)"
    using ls' d3 by (intro scan_lines) simp_all
  also have "\<dots> = Some (4, 8, ?i2 + 21 + n, ?i3 + length (header_lines ls') + 1)"
    by (rule scan_end) simp
  also have "?i3 + length (header_lines ls') + 1 = length (response reason ls ?line ls') - 1"
    by (simp add: response_def eol_def bytes_def)
  finally show "scan input input 0 0 0 0 = Some (4, 8, ks, length (response reason ls ?line ls') - 1)"
    by (simp only: ks_def)
  have "drop ks input = drop (21 + n) (drop ?i2 input)" by (simp add: ks_def add.commute add.left_commute)
  also have "\<dots> = key @ 0x0D # 0x0A # ?t3" unfolding d2 using len by (simp add: accept_line_def)
  finally show "drop ks input = key @ 0x0D # 0x0A # header_lines ls' @ eol @ rest" by (simp add: eol_def)
qed

lemma read_handshake_response:
  assumes ls: "\<forall>l \<in> set ls. no_eol l \<and> l \<noteq> [] \<and> \<not> is_accept l"
    and ls': "\<forall>l \<in> set ls'. no_eol l \<and> l \<noteq> []"
    and reason: "no_eol reason"
    and name: "name_eq name" "hd name = 0x53" and key: "no_eol key" "length key = 28" "hd key \<noteq> 0x20"
    and rx: "buffer_wf rx" "rbuf rx = response reason ls (accept_line name n key) ls' @ rest"
  shows "\<exists>rx'. read_handshake accept_key rx = Some (if key = accept_key then P_ok else P_error, rx') \<and>
     rbuf rx' = rest \<and> buffer_wf rx'"
proof -
  let ?resp = "response reason ls (accept_line name n key) ls'"
  let ?rx = "read (length ?resp) rx"
  have "key \<noteq> []" using key(2) by auto
  have "0 < length ?resp" by (simp add: response_def eol_def)
  then obtain i where i: "length ?resp = Suc i" by (cases "length ?resp") auto
  obtain ks where scan: "scan (rbuf rx) (rbuf rx) 0 0 0 0 = Some (4, 8, ks, i)"
    and d: "drop ks (rbuf rx) = key @ 0x0D # 0x0A # header_lines ls' @ eol @ rest"
    using scan_response [OF ls ls' reason name key(1) \<open>key \<noteq> []\<close> key(3) rx(2)] unfolding i by simp
  have ke: "key_end (rbuf rx) ks = ks + 28" using key_end_drop [OF d key(1)] key(2) by simp
  have sub: "subspan ks 28 (rbuf rx) = key" using d key(2) by (simp add: subspan_def)
  have "length (drop ks (rbuf rx)) \<ge> 28" by (simp only: d) (simp add: key(2))
  then have room: "ks + 28 \<le> length (rbuf rx)" by simp
  have status: "rbuf rx ! 9 = 0x31" "rbuf rx ! 10 = 0x30" "rbuf rx ! 11 = 0x31" "11 < length (rbuf rx)"
    by (simp_all add: rx(2) response_def bytes_def)
  have rx': "rbuf ?rx = rest" "buffer_wf ?rx"
    using bq.pop_content [OF rx(1), of "length ?resp"] bq.pop_invar [OF rx(1), of "length ?resp"] by (simp_all add: rx(2))
  have "read_handshake accept_key rx = Some (if key = accept_key then P_ok else P_error, ?rx)"
    using status room unfolding i by (simp add: read_handshake_def scan ke sub require_def Let_def)
  with rx' show ?thesis by blast
qed

lemma scan_index:
  "scan input rest i c sp key = Some (c', sp', key', i') \<Longrightarrow> c \<noteq> 4 \<Longrightarrow> c' = 4 \<Longrightarrow> i' < i + length rest"
proof (induction rest arbitrary: i c sp key)
  case (Cons x rest)
  then obtain sp1 key1 where
    "(if advance_crlf_count c x = 4 then Some (advance_crlf_count c x, sp1, key1, i)
      else scan input rest (i + 1) (advance_crlf_count c x) sp1 key1) = Some (c', sp', key', i')"
    by (auto simp: defined_iff Let_def)
  with Cons.IH [of "i + 1" "advance_crlf_count c x" sp1 key1] Cons.prems(3) show ?case
    by (auto split: if_splits)
qed simp

section \<open>The accept key\<close>

lemma base64_chars: "set (base64_encode bs) \<subseteq> set table \<union> {CHR ''=''}"
proof -
  have "table_at v \<in> set table" if "v < 64" for v
    using that by (simp add: table_at_def word_less_nat_alt table_facts(2))
  then show ?thesis
    by (induction bs rule: base64_encode.induct) (auto simp only: base64_encode.simps set_simps sextet_range)
qed

lemma table_bytes: "\<forall>c \<in> set (table @ ''=''). (of_char c :: byte) \<notin> {0x0D, 0x0A, 0x20}"
  by (simp add: table_def)

lemma accept_key_ok:
  assumes "\<forall>bs. length (sha1 bs) = 20"
    and k: "key = ws_accept_key (fst (make_handshake rd sha1 host path extra w))"
  shows "length key = 28" "no_eol key" "hd key \<noteq> 0x20"
proof -
  obtain bs where key: "key = bytes (base64_encode (sha1 bs))"
    by (simp add: k make_handshake_def case_prod_unfold Let_def)
  show len: "length key = 28" by (simp add: key bytes_def length_base64 assms(1))
  have sub: "set key \<subseteq> of_char ` set (table @ ''='')" using base64_chars [of "sha1 bs"] by (auto simp: key bytes_def)
  have ok: "\<forall>b \<in> set key. b \<notin> {0x0D, 0x0A, 0x20}"
  proof
    fix b assume "b \<in> set key"
    with sub have "b \<in> of_char ` set (table @ ''='')" by (rule subsetD)
    then show "b \<notin> {0x0D, 0x0A, 0x20}" by (rule imageE) (simp only: table_bytes [rule_format] simp_thms)
  qed
  then show "no_eol key" by (auto simp: no_eol_def)
  show "hd key \<noteq> 0x20" using ok len by (cases key) auto
qed

lemma read_handshake_cases:
  assumes "read_handshake accept_key rx = Some (st, rx')"
  shows "(st = P_ok \<and> rx' = rx) \<or>
     (\<exists>sp ks i. scan (rbuf rx) (rbuf rx) 0 0 0 0 = Some (4, sp, ks, i) \<and> rx' = read (i + 1) rx \<and>
        (st = P_ok \<longrightarrow> sp \<noteq> 0 \<and> sp + 3 < length (rbuf rx) \<and> subspan (sp + 1) 3 (rbuf rx) = bytes ''101'' \<and>
           subspan ks (key_end (rbuf rx) ks - ks) (rbuf rx) = accept_key) \<and> st \<noteq> P_close)"
proof -
  obtain c sp ks i where scan: "scan (rbuf rx) (rbuf rx) 0 0 0 0 = Some (c, sp, ks, i)"
    using assms by (auto simp: read_handshake_def defined_iff Let_def)
  have three: "subspan (sp + 1) 3 (rbuf rx) = [rbuf rx ! (sp + 1), rbuf rx ! (sp + 2), rbuf rx ! (sp + 3)]"
    if "sp + 3 < length (rbuf rx)"
    using that by (simp add: subspan_def numeral_3_eq_3 take_Suc_conv_app_nth Cons_nth_drop_Suc [symmetric])
  show ?thesis
    using assms scan three
    by (cases "c = 4") (auto simp: read_handshake_def Let_def defined_iff bytes_def not_le split: if_splits)
qed

section \<open>Properties\<close>

text \<open>The accept value RFC 6455 prescribes for the key of a request.\<close>

definition server_accept :: "(byte list \<Rightarrow> byte list) \<Rightarrow> string \<Rightarrow> byte list" where
  "server_accept sha1 key = bytes (base64_encode (sha1 (bytes key @ bytes kGuid)))"


text \<open>A server's key and response on concrete values.\<close>

definition sample_sha1 :: "byte list \<Rightarrow> byte list" where
  "sample_sha1 bs = replicate 20 0"

definition sample_key :: "byte list" where
  "sample_key = bytes ''AAAAAAAAAAAAAAAAAAAAAAAAAAA=''"

definition sample_response :: "byte list" where
  "sample_response = response (bytes '' OK'') [bytes ''Server: x''] (accept_line accept_name 1 sample_key) []"

definition sample_rx :: "byte list \<Rightarrow> buffer" where
  "sample_rx bs = \<lparr>mem = bs, rpos = 0, wpos = length bs\<rparr>"

lemma sample_rx [simp]: "buffer_wf (sample_rx bs)" "rbuf (sample_rx bs) = bs"
  by (simp_all add: sample_rx_def buffer_wf_def cap_def rbuf_def subspan_def)




text \<open>
  A response cut inside the spaces of the accept header is read out of bounds.  When the bytes
  received so far end after the colon and the spaces that follow it, the loop that skips the
  spaces runs past the end of the input before the missing end of the response is noticed.
\<close>

theorem handshake_split_undefined:
  "read_handshake accept_key (sample_rx (bytes ''HTTP/1.1 101'' @ eol @ accept_name @ [0x20])) = None"
  by code_simp

text \<open>
  A lower-case accept header is refused.  The comparison of the header name ignores case, but
  it is attempted only where the line starts with an upper-case S, so a response that differs from
  an accepted one in the case of that letter only is refused.
\<close>

theorem handshake_lowercase_refused:
  "map_option fst (read_handshake sample_key (sample_rx
       (response (bytes '' OK'') [] (accept_line (bytes ''sec-websocket-accept:'') 1 sample_key) []))) = Some P_error \<and>
   map_option fst (read_handshake sample_key (sample_rx
       (response (bytes '' OK'') [] (accept_line (bytes ''Sec-websocket-accept:'') 1 sample_key) []))) = Some P_ok"
  by code_simp

end
