(* ===== verification/Websocket.thy ===== *)
theory Websocket
  imports Ws_Handshake Protocol
begin

text \<open>
  \<^verbatim>\<open>include/manet/protocol/websocket.hpp\<close> and \<^verbatim>\<open>websocket_concepts.hpp\<close>: the WebSocket
  client session.  The user's codec is the record \<open>codec\<close>; together with the random device,
  \<open>SHA1\<close> and the size of the message buffer it makes up \<open>ws_env\<close>.  The members of
  \<open>WebSocket<Codec>::Session\<close> are the record \<open>session\<close>; the member \<open>opcode\<close> is
  \<open>None\<close> as long as it is indeterminate.
\<close>

section \<open>Codec and session\<close>

type_synonym ('w, 'cs) message_handler =
  "'cs \<Rightarrow> byte list \<Rightarrow> buffer \<Rightarrow> buffer \<Rightarrow> 'w \<Rightarrow> (protocol_status \<times> 'cs \<times> buffer \<times> buffer \<times> 'w) option"

record ('w, 'cs, 'cc) codec =
  cd_new :: "'cc \<Rightarrow> 'cs"
  cd_on_text :: "('w, 'cs) message_handler option"
  cd_on_binary :: "('w, 'cs) message_handler option"
  cd_on_shutdown :: "('cs \<Rightarrow> 'w \<Rightarrow> (close_code \<times> 'cs \<times> 'w) option) option"

record ('w, 'cs, 'cc) ws_env =
  we_rd :: "'w \<Rightarrow> u32 \<times> 'w"
  we_sha1 :: "byte list \<Rightarrow> byte list"
  we_codec :: "('w, 'cs, 'cc) codec"
  we_msg_cap :: nat

record 'cc ws_config =
  wc_path :: string
  wc_extra :: "header list"
  wc_codec_config :: 'cc

definition MSG_CAP :: nat where
  "MSG_CAP = 2 ^ 20"

datatype ws_state = WS_idle | WS_handshake_sent | WS_listening

record 'cs session =
  ss_host :: string
  ss_path :: string
  ss_extra :: "header list"
  ss_msg_len :: nat
  ss_ws_accept_key :: "byte list"
  ss_opcode :: "op_code option"
  ss_state :: ws_state
  ss_msg_buf :: "byte list"
  ss_codec :: 'cs

definition Session :: "('w, 'cs, 'cc) ws_env \<Rightarrow> string \<Rightarrow> u16 \<Rightarrow> 'cc ws_config \<Rightarrow> 'cs session" where
  "Session E host port config =
     \<lparr>ss_host = host, ss_path = wc_path config, ss_extra = wc_extra config, ss_msg_len = 0,
      ss_ws_accept_key = replicate 28 0, ss_opcode = None, ss_state = WS_idle,
      ss_msg_buf = replicate (we_msg_cap E) 0, ss_codec = cd_new (we_codec E) (wc_codec_config config)\<rparr>"

section \<open>Handlers\<close>

definition on_connect :: "('w, 'cs, 'cc) ws_env \<Rightarrow> ('w, 'cs session) handler" where
  "on_connect E s rx tx w =
     (let (hs, w) = make_handshake (we_rd E) (we_sha1 E) (ss_host s) (ss_path s) (ss_extra s) w;
          len = length (upgrade_request hs)
      in if wbuf_size tx < len then Some (P_error, s, rx, tx, w)
         else do {
           let s = s\<lparr>ss_ws_accept_key := ws_accept_key hs, ss_state := WS_handshake_sent\<rparr>;
           tx \<leftarrow> emit (bytes (upgrade_request hs)) tx;
           Some (P_ok, s, rx, tx, w)
         })"

text \<open>The reply to a close frame: masked with the constant key DE AD BE EF.\<close>

definition close_reply :: "u16 \<Rightarrow> byte list" where
  "close_reply code =
     [0x80 OR op_byte Op_close, 0x80 OR 0x02, 0xDE, 0xAD, 0xBE, 0xEF,
      ucast (drop_bit 8 code) XOR 0xDE, ucast (code AND 0xff) XOR 0xAD]"

definition received_code :: "byte list \<Rightarrow> u16" where
  "received_code payload =
     (if 2 \<le> length payload then push_bit 8 (ucast (payload ! 0)) OR ucast (payload ! 1)
      else close_value normal)"

definition call_codec ::
    "('w, 'cs) message_handler option \<Rightarrow> byte list \<Rightarrow> ('w, 'cs session) handler" where
  "call_codec h payload s rx tx w =
     (case h of
        None \<Rightarrow> Some (P_ok, s, rx, tx, w)
      | Some h \<Rightarrow> do {
          (st, cs, rx, tx, w) \<leftarrow> h (ss_codec s) payload rx tx w;
          Some (st, s\<lparr>ss_codec := cs\<rparr>, rx, tx, w)
        })"

definition handle_frame :: "('w, 'cs, 'cc) ws_env \<Rightarrow> op_code \<Rightarrow> byte list \<Rightarrow> ('w, 'cs session) handler" where
  "handle_frame E opcode payload s rx tx w =
     (case opcode of
        Op_cont \<Rightarrow> Some (P_ok, s, rx, tx, w)
      | Op_text \<Rightarrow> call_codec (cd_on_text (we_codec E)) payload s rx tx w
      | Op_binary \<Rightarrow> call_codec (cd_on_binary (we_codec E)) payload s rx tx w
      | Op_close \<Rightarrow>
          if 8 \<le> wbuf_size tx then do {
            tx \<leftarrow> emit (close_reply (received_code payload)) tx;
            Some (P_close, s, rx, tx, w)
          } else Some (P_close, s, rx, tx, w)
      | Op_ping \<Rightarrow>
          if 126 \<le> length payload then Some (P_close, s, rx, tx, w)
          else if wbuf_size tx < 6 + length payload then Some (P_close, s, rx, tx, w)
          else
            let (bs, w) = write_control_frame (we_rd E) (wbuf_size tx) Op_pong payload w in
            do { tx \<leftarrow> emit bs tx; Some (P_ok, s, rx, tx, w) }
      | Op_pong \<Rightarrow> Some (P_ok, s, rx, tx, w)
      | Op_reserved _ \<Rightarrow> Some (P_ok, s, rx, tx, w))"

text \<open>A frame that belongs to a fragmented message, and one that is a message of its own.\<close>

definition collect_fragment ::
    "('w, 'cs, 'cc) ws_env \<Rightarrow> frame_view \<Rightarrow> byte list \<Rightarrow> ('w, 'cs session) handler" where
  "collect_fragment E frame payload s rx tx w =
     (if we_msg_cap E < ss_msg_len s + length payload then Some (P_error, s, rx, tx, w)
      else if unat (fv_payload_len frame) \<noteq> length payload then Some (P_error, s, rx, tx, w)
      else
        let s = s\<lparr>ss_msg_buf := blit (ss_msg_len s) payload (ss_msg_buf s),
                  ss_msg_len := ss_msg_len s + length payload\<rparr>
        in if fv_fin frame then do {
             opc \<leftarrow> ss_opcode s;
             (st, s, rx, tx, w) \<leftarrow> handle_frame E opc (take (ss_msg_len s) (ss_msg_buf s)) s rx tx w;
             Some (st, s\<lparr>ss_msg_len := 0\<rparr>, rx, tx, w)
           }
           else if fv_op frame \<noteq> Op_cont then Some (P_ok, s\<lparr>ss_opcode := Some (fv_op frame)\<rparr>, rx, tx, w)
           else Some (P_ok, s, rx, tx, w))"

definition dispatch_frame :: "('w, 'cs, 'cc) ws_env \<Rightarrow> ('w, 'cs session) handler" where
  "dispatch_frame E s rx tx w =
     (let input = rbuf rx in
      case parse_frame input of
        (PS_ok, Some parsed) \<Rightarrow> do {
          payload \<leftarrow> span_bytes input (fv_payload (po_frame parsed));
          let rx = read (unat (po_consumed parsed)) rx;
          if \<not> fv_fin (po_frame parsed) \<or> fv_op (po_frame parsed) = Op_cont
          then collect_fragment E (po_frame parsed) payload s rx tx w
          else handle_frame E (fv_op (po_frame parsed)) payload s rx tx w
        }
      | (PS_need_more, _) \<Rightarrow> Some (P_ok, s, rx, tx, w)
      | (_, _) \<Rightarrow> Some (P_error, s, rx, tx, w))"

definition on_data :: "('w, 'cs, 'cc) ws_env \<Rightarrow> ('w, 'cs session) handler" where
  "on_data E s rx tx w =
     (case ss_state s of
        WS_handshake_sent \<Rightarrow> do {
          let before = length (rbuf rx);
          (status, rx) \<leftarrow> read_handshake (ss_ws_accept_key s) rx;
          Some (status,
            if length (rbuf rx) \<noteq> before \<and> status = P_ok then s\<lparr>ss_state := WS_listening\<rparr> else s,
            rx, tx, w)
        }
      | WS_listening \<Rightarrow> dispatch_frame E s rx tx w
      | WS_idle \<Rightarrow> Some (P_error, s, rx, tx, w))"

definition on_shutdown :: "('w, 'cs, 'cc) ws_env \<Rightarrow> ('w, 'cs session) handler" where
  "on_shutdown E s rx tx w = do {
     (code, s, w) \<leftarrow>
       (case cd_on_shutdown (we_codec E) of
          Some h \<Rightarrow> do { (code, cs, w) \<leftarrow> h (ss_codec s) w; Some (code, s\<lparr>ss_codec := cs\<rparr>, w) }
        | None \<Rightarrow> Some (normal, s, w));
     let (bs, w) = write_close (we_rd E) (wbuf_size tx) code w;
     tx \<leftarrow> emit bs tx;
     Some (if 0 < length bs then P_close else P_error, s, rx, tx, w)
   }"

definition ws_heartbeat ::
    "('w, 'cs, 'cc) ws_env \<Rightarrow> 'cs session \<Rightarrow> buffer \<Rightarrow> 'w \<Rightarrow> ('cs session \<times> buffer \<times> 'w) option" where
  "ws_heartbeat E s tx w =
     (let (bs, w) = write_control_frame (we_rd E) (wbuf_size tx) Op_ping [] w in
      do { tx \<leftarrow> emit bs tx; Some (s, tx, w) })"

definition WebSocket :: "('w, 'cs, 'cc) ws_env \<Rightarrow> ('w, 'cs session, 'cc ws_config) protocol" where
  "WebSocket E =
     \<lparr>p_session = Session E, p_on_data = on_data E, p_on_connect = Some (on_connect E),
      p_on_shutdown = Some (on_shutdown E), p_heartbeat = Some (ws_heartbeat E), p_teardown = None\<rparr>"

section \<open>The laws of a protocol\<close>

definition message_handler_ok :: "('w, 'cs) message_handler \<Rightarrow> bool" where
  "message_handler_ok h \<longleftrightarrow> (\<forall>cs payload rx tx w st cs' rx' tx' w'.
     buffer_ok rx \<longrightarrow> buffer_ok tx \<longrightarrow> h cs payload rx tx w = Some (st, cs', rx', tx', w') \<longrightarrow>
     shrinks rx rx' \<and> extends tx tx')"

definition codec_ok :: "('w, 'cs, 'cc) codec \<Rightarrow> bool" where
  "codec_ok C \<longleftrightarrow> pred_option message_handler_ok (cd_on_text C) \<and> pred_option message_handler_ok (cd_on_binary C)"

definition io_post :: "buffer \<Rightarrow> buffer \<Rightarrow> protocol_status \<times> 's \<times> buffer \<times> buffer \<times> 'w \<Rightarrow> bool" where
  "io_post rx tx = (\<lambda>(st, s', rx', tx', w'). shrinks rx rx' \<and> extends tx tx')"

lemma handler_okI: "(\<And>s rx tx w. buffer_ok rx \<Longrightarrow> buffer_ok tx \<Longrightarrow> ensures (io_post rx tx) (h s rx tx w)) \<Longrightarrow> handler_ok h"
  unfolding handler_ok_def
proof (intro allI impI)
  fix s rx tx w st s' rx' tx' w'
  assume ens: "\<And>s rx tx w. buffer_ok rx \<Longrightarrow> buffer_ok tx \<Longrightarrow> ensures (io_post rx tx) (h s rx tx w)"
    and ok: "buffer_ok rx" "buffer_ok tx" and r: "h s rx tx w = Some (st, s', rx', tx', w')"
  from ensuresD [OF ens [OF ok] r] show "shrinks rx rx' \<and> extends tx tx'" by (simp add: io_post_def)
qed

lemma io_post_same [simp]: "io_post rx tx (st, s, rx', tx', w) \<longleftrightarrow> shrinks rx rx' \<and> extends tx tx'"
  by (simp add: io_post_def)

lemma io_post_shrink: "shrinks rx rx1 \<Longrightarrow> io_post rx1 tx r \<Longrightarrow> io_post rx tx r"
  by (auto simp: io_post_def intro: shrinks_trans)

lemma emit_io: "buffer_ok rx \<Longrightarrow> buffer_ok tx \<Longrightarrow> ensures (\<lambda>tx'. shrinks rx rx \<and> extends tx tx') (emit bs tx)"
  by (auto intro!: ensuresI extends_emit)

lemma message_handler_okD:
  "message_handler_ok h \<Longrightarrow> buffer_ok rx \<Longrightarrow> buffer_ok tx \<Longrightarrow> h cs payload rx tx w = Some (st, cs', rx', tx', w') \<Longrightarrow>
     shrinks rx rx' \<and> extends tx tx'"
  unfolding message_handler_ok_def by blast

lemma call_codec_io:
  assumes "pred_option message_handler_ok h" "buffer_ok rx" "buffer_ok tx"
  shows "ensures (io_post rx tx) (call_codec h payload s rx tx w)"
proof (cases h)
  case None
  with assms show ?thesis by (simp add: call_codec_def)
next
  case (Some g)
  with assms(1) have g: "message_handler_ok g" by simp
  have "ensures (\<lambda>(st, cs, rx', tx', w'). shrinks rx rx' \<and> extends tx tx') (g (ss_codec s) payload rx tx w)"
    by (rule ensuresI) (auto dest: message_handler_okD [OF g assms(2,3)])
  then show ?thesis unfolding Some call_codec_def option.case ensures_bind
    by (rule ensures_mono) auto
qed

lemma handle_frame_io:
  assumes "codec_ok (we_codec E)" "buffer_ok rx" "buffer_ok tx"
  shows "ensures (io_post rx tx) (handle_frame E opc payload s rx tx w)"
proof -
  have txt_h: "ensures (io_post rx tx) (call_codec (cd_on_text (we_codec E)) payload s rx tx w)"
    and bin: "ensures (io_post rx tx) (call_codec (cd_on_binary (we_codec E)) payload s rx tx w)"
    using assms by (auto simp: codec_ok_def intro!: call_codec_io)
  show ?thesis
    using assms(2,3) txt_h bin emit_io [OF assms(2,3)]
    by (cases opc) (simp_all add: handle_frame_def case_prod_unfold Let_def)
qed

lemma collect_fragment_io:
  assumes "codec_ok (we_codec E)" "buffer_ok rx" "buffer_ok tx"
  shows "ensures (io_post rx tx) (collect_fragment E frame payload s rx tx w)"
proof -
  have "ensures (io_post rx tx) (handle_frame E opc p s' rx tx w \<bind> (\<lambda>(st, s, rx, tx, w). Some (st, s\<lparr>ss_msg_len := 0\<rparr>, rx, tx, w)))"
    for opc p s'
    unfolding ensures_bind by (rule ensures_mono [OF handle_frame_io [OF assms]]) (auto simp: io_post_def)
  then have "ensures (io_post rx tx) (opt \<bind> (\<lambda>opc. handle_frame E opc p s' rx tx w \<bind>
      (\<lambda>(st, s, rx, tx, w). Some (st, s\<lparr>ss_msg_len := 0\<rparr>, rx, tx, w))))" for opt p s'
    by (cases opt) (simp_all del: ensures_bind)
  with assms(2,3) show ?thesis
    by (simp add: collect_fragment_def Let_def del: ensures_bind)
qed

lemma dispatch_frame_io:
  assumes "codec_ok (we_codec E)" "buffer_ok rx" "buffer_ok tx"
  shows "ensures (io_post rx tx) (dispatch_frame E s rx tx w)"
proof -
  have "ensures (io_post rx tx) (dispatch_frame E s rx tx w)"
    if p: "parse_frame (rbuf rx) = (PS_ok, Some po)" for po
  proof (cases "span_bytes (rbuf rx) (fv_payload (po_frame po))")
    case None
    with p show ?thesis by (simp add: dispatch_frame_def)
  next
    case (Some payload)
    let ?sp = "fv_payload (po_frame po)"
    have len: "length (rbuf rx) < 2 ^ 31" using rbuf_le_cap [of rx] assms(2) by (auto simp: buffer_ok_def)
    then have len': "length (rbuf rx) < 2 ^ 64" by simp
    have "sp_off ?sp + unat (sp_size ?sp) \<le> length (rbuf rx)" using Some by (simp add: span_bytes_def require_def split: if_splits)
    then have le: "unat (po_consumed po) \<le> length (rbuf rx)"
      using parse_frame_bounds(3) [OF p len' refl] len' by simp
    let ?rx = "read (unat (po_consumed po)) rx"
    have sh: "shrinks rx ?rx" by (rule shrinks_read [OF assms(2) le])
    then have ok: "buffer_ok ?rx" by (simp add: shrinks_def)
    have "ensures (io_post rx tx) (collect_fragment E f payload s ?rx tx w)" for f
      by (rule ensures_mono [OF collect_fragment_io [OF assms(1) ok assms(3)] io_post_shrink [OF sh]])
    moreover have "ensures (io_post rx tx) (handle_frame E opc payload s ?rx tx w)" for opc
      by (rule ensures_mono [OF handle_frame_io [OF assms(1) ok assms(3)] io_post_shrink [OF sh]])
    ultimately have "ensures (io_post rx tx)
        (if \<not> fv_fin (po_frame po) \<or> fv_op (po_frame po) = Op_cont
         then collect_fragment E (po_frame po) payload s ?rx tx w
         else handle_frame E (fv_op (po_frame po)) payload s ?rx tx w)" by simp
    then show ?thesis
      unfolding dispatch_frame_def Let_def p prod.case parse_status.case option.case Some bind.bind_lunit .
  qed
  moreover obtain st po where p: "parse_frame (rbuf rx) = (st, po)" by (cases "parse_frame (rbuf rx)")
  ultimately show ?thesis
    using assms(2,3) by (cases st; cases po) (simp_all add: dispatch_frame_def p)
qed

lemma read_handshake_shrinks:
  assumes "buffer_ok rx"
  shows "ensures (\<lambda>(st, rx'). shrinks rx rx') (read_handshake key rx)"
proof (rule ensuresI)
  fix r assume r: "read_handshake key rx = Some r"
  obtain st rx' where r': "r = (st, rx')" by (cases r)
  have "shrinks rx (read (i + 1) rx)" if "scan (rbuf rx) (rbuf rx) 0 0 0 0 = Some (4, sp, ks, i)" for sp ks i
    using scan_index [OF that] by (intro shrinks_read [OF assms]) simp
  with read_handshake_cases [OF r [unfolded r']] assms show "case r of (st, rx') \<Rightarrow> shrinks rx rx'"
    by (auto simp: r')
qed

lemma on_data_io:
  assumes "codec_ok (we_codec E)" "buffer_ok rx" "buffer_ok tx"
  shows "ensures (io_post rx tx) (on_data E s rx tx w)"
proof (cases "ss_state s")
  case WS_handshake_sent
  then show ?thesis
    unfolding on_data_def ws_state.case Let_def ensures_bind
    by (simp only: ws_state.case ensures_bind)
      (rule ensures_mono [OF read_handshake_shrinks [OF assms(2)]], use assms(3) in auto)
qed (use assms dispatch_frame_io [OF assms] in \<open>simp_all add: on_data_def\<close>)

lemma on_connect_io:
  assumes "buffer_ok rx" "buffer_ok tx"
  shows "ensures (io_post rx tx) (on_connect E s rx tx w)"
  using assms emit_io [OF assms] by (simp add: on_connect_def case_prod_unfold Let_def)

lemma on_shutdown_io:
  assumes "buffer_ok rx" "buffer_ok tx"
  shows "ensures (io_post rx tx) (on_shutdown E s rx tx w)"
proof -
  have "ensures (\<lambda>_. True) m" for m by (rule ensures_any) simp
  then show ?thesis
    using emit_io [OF assms] by (auto simp: on_shutdown_def case_prod_unfold Let_def intro: ensures_any)
qed

lemma ws_heartbeat_io:
  "buffer_ok tx \<Longrightarrow> ws_heartbeat E s tx w = Some (s', tx', w') \<Longrightarrow> extends tx tx'"
  by (auto simp: ws_heartbeat_def case_prod_unfold Let_def defined_iff intro: extends_emit)

interpretation ws: protocol_laws WebSocket "\<lambda>E. codec_ok (we_codec E)"
proof unfold_locales
  fix E :: "('w, 'cs, 'cc) ws_env"
  assume ok: "codec_ok (we_codec E)"
  show "handler_ok (p_on_data (WebSocket E))"
    using on_data_io [OF ok] by (simp add: WebSocket_def handler_okI)
qed (auto simp: WebSocket_def intro!: handler_okI on_connect_io on_shutdown_io dest: ws_heartbeat_io)

end
