(* ===== verification/Websocket_Props.thy ===== *)
theory Websocket_Props
  imports Websocket Connection_Props
begin

text \<open>
  The properties of the WebSocket session: reassembly of fragmented messages, the replies to
  pings and close frames, and what the session does at the edges of the protocol.
\<close>

section \<open>One frame\<close>

abbreviation server_view :: "bool \<Rightarrow> op_code \<Rightarrow> byte list \<Rightarrow> frame_view" where
  "server_view fin opc payload \<equiv>
     \<lparr>fv_op = opc, fv_fin = fin,
      fv_payload = \<lparr>sp_off = hdr_size (length payload), sp_size = of_nat (length payload)\<rparr>,
      fv_payload_len = of_nat (length payload)\<rparr>"

lemma on_data_frame:
  assumes s: "ss_state s = WS_listening" and opc: "op_ok opc" and rx: "buffer_ok rx"
    and input: "rbuf rx = server_frame fin opc payload @ rest"
  defines "rx' \<equiv> read (length (server_frame fin opc payload)) rx"
  shows "on_data E s rx tx w =
      (if \<not> fin \<or> opc = Op_cont then collect_fragment E (server_view fin opc payload) payload s rx' tx w
       else handle_frame E opc payload s rx' tx w)"
    and "rbuf rx' = rest" and "buffer_ok rx'" and "length payload < 2 ^ 31"
proof -
  have "length (rbuf rx) < 2 ^ 31" using rbuf_le_cap [of rx] rx by (auto simp: buffer_ok_def)
  then have len: "length (server_frame fin opc payload) + length rest < 2 ^ 31" by (simp add: input)
  then have payload: "length payload + length rest < 2 ^ 31" by (simp add: length_server_frame)
  then show "length payload < 2 ^ 31" by simp
  have sh: "shrinks rx rx'" unfolding rx'_def by (rule shrinks_read [OF rx]) (simp add: input)
  then show "buffer_ok rx'" by (simp add: shrinks_def)
  show "rbuf rx' = rest"
    using rx bq.pop_content [of rx "length (server_frame fin opc payload)"] by (auto simp: rx'_def input)
  have "length payload + length rest + 10 < 2 ^ 64" using payload by simp
  note parse = parse_server_frame [OF opc this, of fin]
  have "unat (of_nat (length (server_frame fin opc payload)) :: u64) = length (server_frame fin opc payload)"
    using len by (intro unat_u64) simp
  then show "on_data E s rx tx w =
      (if \<not> fin \<or> opc = Op_cont then collect_fragment E (server_view fin opc payload) payload s rx' tx w
       else handle_frame E opc payload s rx' tx w)"
    using s by (simp add: on_data_def dispatch_frame_def input parse rx'_def)
qed

section \<open>Reassembly\<close>

definition session_wf :: "('w, 'cs, 'cc) ws_env \<Rightarrow> 'cs session \<Rightarrow> bool" where
  "session_wf E s \<longleftrightarrow> length (ss_msg_buf s) = we_msg_cap E \<and> ss_msg_len s \<le> we_msg_cap E"

definition collected :: "'cs session \<Rightarrow> byte list" where
  "collected s = take (ss_msg_len s) (ss_msg_buf s)"

lemma take_blit:
  "n \<le> length xs \<Longrightarrow> n + length ys \<le> length xs \<Longrightarrow> take (n + length ys) (blit n ys xs) = take n xs @ ys"
  by (auto simp: blit_def)

text \<open>Clearing the message buffer after a message was handled.\<close>

definition reset_msg ::
    "protocol_status \<times> 'cs session \<times> buffer \<times> buffer \<times> 'w \<Rightarrow> protocol_status \<times> 'cs session \<times> buffer \<times> buffer \<times> 'w" where
  "reset_msg r = (case r of (st, s, rx, tx, w) \<Rightarrow> (st, s\<lparr>ss_msg_len := 0\<rparr>, rx, tx, w))"

lemma reset_msg_bind: "m \<bind> (\<lambda>(st, s, rx, tx, w). Some (st, s\<lparr>ss_msg_len := 0\<rparr>, rx, tx, w)) = map_option reset_msg m"
  by (cases m) (auto simp: reset_msg_def)

text \<open>Storing one more fragment.\<close>

definition store_fragment :: "byte list \<Rightarrow> 'cs session \<Rightarrow> 'cs session" where
  "store_fragment payload s =
     s\<lparr>ss_msg_buf := blit (ss_msg_len s) payload (ss_msg_buf s), ss_msg_len := ss_msg_len s + length payload\<rparr>"

lemma store_fragment:
  assumes "session_wf E s" "ss_msg_len s + length payload \<le> we_msg_cap E"
  shows "session_wf E (store_fragment payload s)" "collected (store_fragment payload s) = collected s @ payload"
    "ss_msg_len (store_fragment payload s) = ss_msg_len s + length payload"
    "ss_state (store_fragment payload s) = ss_state s" "ss_codec (store_fragment payload s) = ss_codec s"
    "ss_opcode (store_fragment payload s) = ss_opcode s"
  using assms by (simp_all add: session_wf_def store_fragment_def collected_def take_blit)

lemma collect_fragment_stores:
  assumes "session_wf E s" "ss_msg_len s + length payload \<le> we_msg_cap E" "length payload < 2 ^ 31"
  shows "collect_fragment E (server_view fin opc payload) payload s rx tx w =
     (let s = store_fragment payload s in
      if fin then do {
        opc \<leftarrow> ss_opcode s;
        map_option reset_msg (handle_frame E opc (collected s) s rx tx w)
      }
      else if opc \<noteq> Op_cont then Some (P_ok, s\<lparr>ss_opcode := Some opc\<rparr>, rx, tx, w)
      else Some (P_ok, s, rx, tx, w))"
proof -
  have "unat (of_nat (length payload) :: u64) = length payload" using assms(3) by (intro unat_u64) simp
  then show ?thesis
    using assms(2) by (simp add: collect_fragment_def store_fragment_def collected_def Let_def reset_msg_bind)
qed

text \<open>Calls of \<open>on_data\<close> in a row, as the connection makes them while bytes are consumed.\<close>

fun feed :: "('w, 'cs, 'cc) ws_env \<Rightarrow> nat \<Rightarrow> ('w, 'cs session) handler" where
  "feed E 0 s rx tx w = Some (P_ok, s, rx, tx, w)"
| "feed E (Suc n) s rx tx w = do {
     (st, s, rx, tx, w) \<leftarrow> on_data E s rx tx w;
     if st = P_ok then feed E n s rx tx w else Some (st, s, rx, tx, w)
   }"

definition fragments :: "op_code \<Rightarrow> byte list \<Rightarrow> byte list list \<Rightarrow> byte list \<Rightarrow> byte list" where
  "fragments opc p0 ps pn =
     server_frame False opc p0 @ concat (map (server_frame False Op_cont) ps) @ server_frame True Op_cont pn"

lemma op_ok_cont: "op_ok Op_cont" by (simp add: op_ok_def)

lemma feed_last:
  assumes "ss_state s = WS_listening" "session_wf E s" "buffer_ok rx"
    and "rbuf rx = server_frame True Op_cont pn @ rest" "ss_msg_len s + length pn \<le> we_msg_cap E"
    and "ss_opcode s = Some opc"
  shows "\<exists>rx'. rbuf rx' = rest \<and> buffer_ok rx' \<and> feed E 1 s rx tx w = map_option reset_msg (handle_frame E opc (collected s @ pn) (store_fragment pn s) rx' tx w)"
proof -
  note f = on_data_frame [OF assms(1) op_ok_cont assms(3,4)]
  note st = store_fragment [OF assms(2,5)]
  let ?rx = "read (length (server_frame True Op_cont pn)) rx"
  have "on_data E s rx tx w = map_option reset_msg (handle_frame E opc (collected s @ pn) (store_fragment pn s) ?rx tx w)"
    unfolding f(1) using collect_fragment_stores [OF assms(2,5) f(4)] st assms(6) by (simp add: Let_def)
  then have "feed E 1 s rx tx w = map_option reset_msg (handle_frame E opc (collected s @ pn) (store_fragment pn s) ?rx tx w)"
    by (cases "handle_frame E opc (collected s @ pn) (store_fragment pn s) ?rx tx w") (auto simp: reset_msg_def)
  with f(2,3) show ?thesis by blast
qed

lemma feed_middle:
  assumes "ss_state s = WS_listening" "session_wf E s" "buffer_ok rx"
    and "rbuf rx = concat (map (server_frame False Op_cont) ps) @ server_frame True Op_cont pn @ rest"
    and "ss_msg_len s + length (concat ps) + length pn \<le> we_msg_cap E" "ss_opcode s = Some opc"
  shows "\<exists>s' rx'. rbuf rx' = rest \<and> buffer_ok rx' \<and> ss_codec s' = ss_codec s \<and> ss_state s' = WS_listening \<and>
     feed E (Suc (length ps)) s rx tx w = map_option reset_msg (handle_frame E opc (collected s @ concat ps @ pn) s' rx' tx w)"
  using assms
proof (induction ps arbitrary: s rx)
  case Nil
  then have input: "rbuf rx = server_frame True Op_cont pn @ rest" and cap: "ss_msg_len s + length pn \<le> we_msg_cap E"
    by simp_all
  from feed_last [OF Nil.prems(1,2,3) input cap Nil.prems(6), of tx w]
  obtain rx' where "rbuf rx' = rest" "buffer_ok rx'" "feed E 1 s rx tx w = map_option reset_msg (handle_frame E opc (collected s @ pn) (store_fragment pn s) rx' tx w)" by blast
  with store_fragment(4,5) [OF Nil.prems(2) cap] Nil.prems(1) show ?case
    by (intro exI [of _ "store_fragment pn s"] exI [of _ rx'] conjI) (simp_all only: One_nat_def list.size concat.simps append_Nil)
next
  case (Cons p ps)
  have cap: "ss_msg_len s + length p \<le> we_msg_cap E" using Cons.prems(5) by simp
  have input: "rbuf rx = server_frame False Op_cont p @
      (concat (map (server_frame False Op_cont) ps) @ server_frame True Op_cont pn @ rest)" using Cons.prems(4) by simp
  note f = on_data_frame [OF Cons.prems(1) op_ok_cont Cons.prems(3) input]
  note st = store_fragment [OF Cons.prems(2) cap]
  let ?s = "store_fragment p s" and ?rx = "read (length (server_frame False Op_cont p)) rx"
  have d: "on_data E s rx tx w = Some (P_ok, ?s, ?rx, tx, w)"
    unfolding f(1) using collect_fragment_stores [OF Cons.prems(2) cap f(4)] by (simp add: Let_def)
  obtain s' rx' where "rbuf rx' = rest" "buffer_ok rx'" "ss_codec s' = ss_codec ?s" "ss_state s' = WS_listening"
    "feed E (Suc (length ps)) ?s ?rx tx w = map_option reset_msg (handle_frame E opc (collected ?s @ concat ps @ pn) s' rx' tx w)"
  proof -
    have "ss_state ?s = WS_listening" "ss_opcode ?s = Some opc"
      "ss_msg_len ?s + length (concat ps) + length pn \<le> we_msg_cap E"
      using st Cons.prems(1,5,6) by simp_all
    from Cons.IH [OF this(1) st(1) f(3,2) this(3,2)] that show thesis by blast
  qed
  with d st(2,5) show ?case by (intro exI [of _ s'] exI [of _ rx']) simp
qed

lemma feed_fragments:
  assumes s: "ss_state s = WS_listening" "session_wf E s" "ss_msg_len s = 0" and rx: "buffer_ok rx"
    and input: "rbuf rx = fragments opc p0 ps pn @ rest" and opc: "op_ok opc" "opc \<noteq> Op_cont"
    and cap: "length (p0 @ concat ps @ pn) \<le> we_msg_cap E"
  shows "\<exists>s' rx'. rbuf rx' = rest \<and> buffer_ok rx' \<and> ss_codec s' = ss_codec s \<and> ss_state s' = WS_listening \<and>
     feed E (length ps + 2) s rx tx w = map_option reset_msg (handle_frame E opc (p0 @ concat ps @ pn) s' rx' tx w)"
proof -
  have input': "rbuf rx = server_frame False opc p0 @
      (concat (map (server_frame False Op_cont) ps) @ server_frame True Op_cont pn @ rest)"
    using input by (simp add: fragments_def)
  have cap0: "ss_msg_len s + length p0 \<le> we_msg_cap E" using cap s(3) by simp
  note f = on_data_frame [OF s(1) opc(1) rx input']
  note st = store_fragment [OF s(2) cap0]
  let ?s = "(store_fragment p0 s)\<lparr>ss_opcode := Some opc\<rparr>" and ?rx = "read (length (server_frame False opc p0)) rx"
  have d: "on_data E s rx tx w = Some (P_ok, ?s, ?rx, tx, w)"
    unfolding f(1) using collect_fragment_stores [OF s(2) cap0 f(4)] opc(2) by (simp add: Let_def)
  have s': "ss_state ?s = WS_listening" "session_wf E ?s" "collected ?s = p0" "ss_opcode ?s = Some opc"
    "ss_msg_len ?s + length (concat ps) + length pn \<le> we_msg_cap E"
    using st s cap by (simp_all add: session_wf_def collected_def)
  from feed_middle [OF s'(1,2) f(3,2) s'(5,4), of tx w] obtain s1 rx1 where "rbuf rx1 = rest" "buffer_ok rx1"
    "ss_codec s1 = ss_codec s" "ss_state s1 = WS_listening"
    "feed E (Suc (length ps)) ?s ?rx tx w = map_option reset_msg (handle_frame E opc (p0 @ concat ps @ pn) s1 rx1 tx w)"
    using s'(3) st(5) by auto
  with d show ?thesis by (intro exI [of _ s1] exI [of _ rx1]) (simp add: eval_nat_numeral)
qed

section \<open>Replies\<close>

lemma client_close_reply: "client_frame (close_reply code) = Some (True, Op_close, htons_bytes code)"
proof -
  have ff: "(0xff :: u16) = mask 8" by (simp add: mask_eq_exp_minus_1)
  have "ucast (code AND 0xff) = (ucast code :: byte)"
    unfolding ff by (rule bit_word_eqI) (simp add: bit_simps)
  moreover have "mask_bytes [0xDE, 0xAD, 0xBE, 0xEF] [a XOR 0xDE, b XOR 0xAD] = [a, b]" for a b :: byte
  proof -
    have "[a XOR 0xDE, b XOR 0xAD] = mask_bytes [0xDE, 0xAD, 0xBE, 0xEF] [a, b]"
      by (simp add: mask_bytes_def upt_rec xor.commute [of a] xor.commute [of b])
    then show ?thesis by simp
  qed
  ultimately show ?thesis
    by (simp add: close_reply_def op_byte_def masked_def len7_def rsv_def fin_bit_def to_op_def htons_bytes_def)
qed

lemma received_code_bytes: "2 \<le> length payload \<Longrightarrow> htons_bytes (received_code payload) = take 2 payload"
proof -
  assume "2 \<le> length payload"
  then obtain a b rest where p: "payload = a # b # rest" by (cases payload; cases "tl payload") auto
  have "ucast (drop_bit 8 (push_bit 8 (ucast a) OR ucast b :: u16)) = a"
    by (rule bit_word_eqI) (auto simp: bit_simps high_bit)
  moreover have "ucast (push_bit 8 (ucast a) OR ucast b :: u16) = b"
    by (rule bit_word_eqI) (auto simp: bit_simps)
  ultimately have "ucast (drop_bit 8 (push_bit 8 (ucast a) OR ucast b :: u16)) = a \<and>
    ucast (push_bit 8 (ucast a) OR ucast b :: u16) = b" by blast
  then show ?thesis by (simp add: p received_code_def htons_bytes_def)
qed

section \<open>A concrete session\<close>

text \<open>A codec that keeps the messages it is given, and a session that listens.\<close>

definition log_message :: "('w, byte list list) message_handler" where
  "log_message cs payload rx tx w = Some (P_ok, cs @ [payload], rx, tx, w)"

definition sample_codec :: "('w, byte list list, unit) codec" where
  "sample_codec = \<lparr>cd_new = (\<lambda>_. []), cd_on_text = Some log_message, cd_on_binary = None, cd_on_shutdown = None\<rparr>"

definition sample_ws :: "('w, byte list list, unit) ws_env" where
  "sample_ws = \<lparr>we_rd = (\<lambda>w. (7, w)), we_sha1 = sample_sha1, we_codec = sample_codec, we_msg_cap = 16\<rparr>"

definition sample_session :: "byte list list session" where
  "sample_session = (Session (sample_ws :: (script, byte list list, unit) ws_env) ''h'' 80
     \<lparr>wc_path = ''/'', wc_extra = [], wc_codec_config = ()\<rparr>)\<lparr>ss_state := WS_listening\<rparr>"

lemma sample_session_wf:
  "session_wf sample_ws sample_session" "ss_msg_len sample_session = 0" "ss_state sample_session = WS_listening"
  "ss_codec sample_session = []" "ss_opcode sample_session = None"
  by (simp_all add: session_wf_def sample_session_def Session_def sample_ws_def sample_codec_def)

lemma buffer_ok_sample [simp]: "length bs < 2 ^ 31 \<Longrightarrow> buffer_ok (sample_rx bs)"
  by (simp add: buffer_ok_def) (simp add: sample_rx_def cap_def)

lemma buffer_ok_new [simp]: "n < 2 ^ 31 \<Longrightarrow> buffer_ok (new_buffer n)"
  by (simp add: buffer_ok_def)

section \<open>Properties\<close>

text \<open>
  C13: a fragmented message is reassembled.  When the receive buffer starts with the fragments of a
  text or binary message that fits the message buffer, as many calls of \<open>on_data\<close> as there are
  frames consume exactly the fragments and hand the codec the concatenated payload once, with the
  type of the first frame; the message buffer is empty again afterwards.
\<close>

theorem message_reassembled:
  assumes "ss_state s = WS_listening" "session_wf E s" "ss_msg_len s = 0" "buffer_ok rx"
    and "rbuf rx = fragments opc p0 ps pn @ rest" "length (p0 @ concat ps @ pn) \<le> we_msg_cap E"
    and "opc = Op_text \<and> cd_on_text (we_codec E) = Some h \<or> opc = Op_binary \<and> cd_on_binary (we_codec E) = Some h"
  shows "\<exists>s' rx'. rbuf rx' = rest \<and>
     feed E (length ps + 2) s rx tx w =
       map_option (\<lambda>(st, cs, rx, tx, w). (st, s'\<lparr>ss_codec := cs, ss_msg_len := 0\<rparr>, rx, tx, w))
         (h (ss_codec s) (p0 @ concat ps @ pn) rx' tx w)"
proof -
  have opc: "op_ok opc" "opc \<noteq> Op_cont" using assms(7) by (auto simp: op_ok_def)
  obtain s' rx' where r: "rbuf rx' = rest" and c: "ss_codec s' = ss_codec s"
    and f: "feed E (length ps + 2) s rx tx w =
      map_option reset_msg (handle_frame E opc (p0 @ concat ps @ pn) s' rx' tx w)"
    using feed_fragments [OF assms(1-5) opc assms(6)] by blast
  have "handle_frame E opc (p0 @ concat ps @ pn) s' rx' tx w =
      map_option (\<lambda>(st, cs, rx, tx, w). (st, s'\<lparr>ss_codec := cs\<rparr>, rx, tx, w)) (h (ss_codec s) (p0 @ concat ps @ pn) rx' tx w)"
    using assms(7) by (cases "h (ss_codec s) (p0 @ concat ps @ pn) rx' tx w") (auto simp: handle_frame_def call_codec_def c)
  with r f show ?thesis
    by (intro exI [of _ s'] exI [of _ rx'])
      (cases "h (ss_codec s) (p0 @ concat ps @ pn) rx' tx w"; auto simp: reset_msg_def)
qed

theorem message_reassembled_witness:
  "\<exists>s' rx'. rbuf rx' = [9] \<and>
     feed sample_ws 3 sample_session (sample_rx (fragments Op_text [1, 2] ([3] # []) [4] @ [9])) (new_buffer 8) () =
       Some (P_ok, s'\<lparr>ss_codec := [1, 2, 3, 4] # [], ss_msg_len := 0\<rparr>, rx', new_buffer 8, ())"
proof -
  let ?E = "sample_ws :: (unit, byte list list, unit) ws_env"
  let ?in = "fragments Op_text [1, 2] ([3] # []) [4] @ [9]"
  have h: "Op_text = Op_text \<and> cd_on_text (we_codec ?E) = Some log_message \<or>
      Op_text = Op_binary \<and> cd_on_binary (we_codec ?E) = Some log_message"
    by (simp add: sample_ws_def sample_codec_def)
  have wf: "session_wf ?E sample_session" and cap: "length ([1, 2] @ concat ([3 :: byte] # []) @ [4]) \<le> we_msg_cap ?E"
    and rx: "buffer_ok (sample_rx ?in)"
    by (simp add: session_wf_def sample_session_def Session_def sample_ws_def,
        simp add: sample_ws_def, simp add: fragments_def server_frame_def len_bytes_def)
  from message_reassembled [OF sample_session_wf(3) wf sample_session_wf(2) rx sample_rx(2) cap h, of "new_buffer 8" "()"]
  show ?thesis by (simp add: log_message_def sample_session_wf(4) eval_nat_numeral)
qed



text \<open>
  C34: a close frame is answered.  The session consumes it, asks the connection to close and, when
  the transmit buffer has room, writes one masked close frame that a server decodes to the status
  code the server sent (1000 when it sent none).
\<close>

theorem close_answered:
  assumes "ss_state s = WS_listening" "buffer_ok rx" "buffer_ok tx"
    and "rbuf rx = server_frame True Op_close payload @ rest" "8 \<le> wbuf_size tx"
  shows "\<exists>rx' tx' frame. on_data E s rx tx w = Some (P_close, s, rx', tx', w) \<and> rbuf rx' = rest \<and>
     rbuf tx' = rbuf tx @ frame \<and>
     client_frame frame = Some (True, Op_close, if 2 \<le> length payload then take 2 payload else htons_bytes 1000)"
proof -
  have close: "op_ok Op_close" by (simp add: op_ok_def)
  note f = on_data_frame [OF assms(1) close assms(2,4)]
  let ?frame = "close_reply (received_code payload)"
  have len: "length ?frame = 8" by (simp add: close_reply_def)
  obtain tx' where tx': "emit ?frame tx = Some tx'" using assms(5) len by (metis emit_defined)
  have "on_data E s rx tx w = Some (P_close, s, read (length (server_frame True Op_close payload)) rx, tx', w)"
    unfolding f(1) using assms(5) tx' by (simp add: handle_frame_def)
  moreover have "client_frame ?frame = Some (True, Op_close, if 2 \<le> length payload then take 2 payload else htons_bytes 1000)"
    using received_code_bytes [of payload] by (simp add: client_close_reply) (simp add: received_code_def close_value_def)
  ultimately show ?thesis
    using f(2) emit_rbuf [OF buffer_okD(1) [OF assms(3)] tx'] by blast
qed

theorem close_answered_witness:
  "\<exists>rx' tx' frame. on_data sample_ws sample_session (sample_rx (server_frame True Op_close [3, 0xE9] @ [])) (new_buffer 16) () =
       Some (P_close, sample_session, rx', tx', ()) \<and> rbuf rx' = [] \<and> rbuf tx' = rbuf (new_buffer 16) @ frame \<and>
     client_frame frame = Some (True, Op_close, if 2 \<le> length [3, 0xE9 :: byte] then take 2 [3, 0xE9] else htons_bytes 1000)"
proof -
  have rx: "buffer_ok (sample_rx (server_frame True Op_close [3, 0xE9] @ []))" and tx: "buffer_ok (new_buffer 16)"
    by (simp add: server_frame_def len_bytes_def, simp)
  have len: "8 \<le> wbuf_size (new_buffer 16)" by (simp add: wbuf_size_def new_buffer_def cap_def)
  show ?thesis by (rule close_answered [OF sample_session_wf(3) rx tx sample_rx(2) len])
qed

text \<open>
  A message larger than the message buffer is an error.  A fragment that does not fit behind
  the fragments collected so far ends the session with \<open>error\<close>; it is consumed, and neither the
  message buffer nor the transmit buffer is written.
\<close>

theorem fragment_overflow:
  assumes "ss_state s = WS_listening" "op_ok opc" "buffer_ok rx" "rbuf rx = server_frame fin opc payload @ rest"
    and "opc = Op_cont \<or> fin = False" "we_msg_cap E < ss_msg_len s + length payload"
  shows "\<exists>rx'. on_data E s rx tx w = Some (P_error, s, rx', tx, w) \<and> rbuf rx' = rest"
proof -
  note f = on_data_frame [OF assms(1-4)]
  have "on_data E s rx tx w = Some (P_error, s, read (length (server_frame fin opc payload)) rx, tx, w)"
    unfolding f(1) using assms(5,6) by (auto simp: collect_fragment_def)
  with f(2) show ?thesis by blast
qed

theorem fragment_overflow_witness:
  "\<exists>rx'. on_data sample_ws sample_session (sample_rx (server_frame False Op_text (replicate 17 1) @ [])) (new_buffer 8) () =
     Some (P_error, sample_session, rx', new_buffer 8, ()) \<and> rbuf rx' = []"
proof -
  let ?E = "sample_ws :: (unit, byte list list, unit) ws_env"
  have opc: "op_ok Op_text" and rx: "buffer_ok (sample_rx (server_frame False Op_text (replicate 17 1) @ []))"
    and cap: "we_msg_cap ?E < ss_msg_len sample_session + length (replicate 17 (1 :: byte))"
    by (simp add: op_ok_def, simp add: server_frame_def len_bytes_def, simp add: sample_ws_def)
  show ?thesis by (rule fragment_overflow [OF sample_session_wf(3) opc rx sample_rx(2) _ cap]) simp
qed

text \<open>
  C40: a final continuation frame that opens a message has no defined result.  The member
  \<open>opcode\<close> has no initial value, so a server that sends a final continuation frame before any
  fragmented message makes the session switch on an indeterminate value.
\<close>

theorem stray_continuation_undefined:
  assumes "ss_state s = WS_listening" "session_wf E s" "ss_opcode s = None" "buffer_ok rx"
    and "rbuf rx = server_frame True Op_cont payload @ rest" "ss_msg_len s + length payload \<le> we_msg_cap E"
  shows "on_data E s rx tx w = None"
proof -
  note f = on_data_frame [OF assms(1) op_ok_cont assms(4,5)]
  show ?thesis
    unfolding f(1)
    using collect_fragment_stores [OF assms(2,6) f(4)] store_fragment(6) [OF assms(2,6)] assms(3) by (simp add: Let_def)
qed

theorem stray_continuation_undefined_witness:
  "on_data sample_ws sample_session (sample_rx (server_frame True Op_cont [1] @ [])) (new_buffer 8) () = None"
proof -
  let ?E = "sample_ws :: (unit, byte list list, unit) ws_env"
  have wf: "session_wf ?E sample_session" and cap: "ss_msg_len sample_session + length [1 :: byte] \<le> we_msg_cap ?E"
    and rx: "buffer_ok (sample_rx (server_frame True Op_cont [1] @ []))"
    by (simp add: session_wf_def sample_session_def Session_def sample_ws_def,
        simp add: sample_ws_def sample_session_wf(2), simp add: server_frame_def len_bytes_def)
  show ?thesis by (rule stray_continuation_undefined [OF sample_session_wf(3) wf sample_session_wf(5) rx sample_rx(2) cap])
qed

section \<open>A session on a connection\<close>

text \<open>A connected plain connection with a WebSocket session and the chunks its peer sends.\<close>

definition ws_T :: "(script, sample_event, plain_endpoint, byte list list session, unit, unit ws_config) templ" where
  "ws_T = plain_templ sample_net sample_resolver (WebSocket sample_ws)"

definition ws_conn :: "ws_state \<Rightarrow> byte list list \<Rightarrow> (script, plain_endpoint, byte list list session, unit, unit ws_config) conn" where
  "ws_conn st chunks = (Connection ws_T 64 64 ''h'' 80 () \<lparr>wc_path = ''/'', wc_extra = [], wc_codec_config = ()\<rparr>
       \<lparr>sc_in = chunks, sc_out = []\<rparr>)
     \<lparr>c_state := S_protocol, c_fd := 3, c_transport := Some 3, c_protocol := sample_session\<lparr>ss_state := st\<rparr>\<rparr>"

text \<open>
  A close frame of the server is answered twice.  The session answers it in \<open>handle_frame\<close>
  and returns \<open>close\<close>, whereupon the connection starts the shutdown of the session, which writes
  a second close frame: the bytes on the wire decode to two close frames.
\<close>

theorem server_close_answered_twice:
  "map_option (\<lambda>c. (c_state c, client_frame (take 8 (sc_out (c_world c))), client_frame (drop 8 (sc_out (c_world c)))))
     (handle_event ws_T sample_rw (ws_conn WS_listening (server_frame True Op_close [3, 0xE8] # []))) =
   Some (S_closed, Some (True, Op_close, [3, 0xE8]), Some (True, Op_close, [3, 0xE8]))"
  by code_simp

text \<open>
  A heartbeat may precede the end of the handshake.  The connection is in the state
  \<open>protocol\<close> as soon as the upgrade request is sent, so a heartbeat puts a ping frame on the wire
  while the server still has to answer the upgrade request.
\<close>

theorem heartbeat_before_handshake:
  "map_option (\<lambda>c. (ss_state (c_protocol c), client_frame (sc_out (c_world c))))
     (heartbeat ws_T (ws_conn WS_handshake_sent [])) =
   Some (WS_handshake_sent, Some (True, Op_ping, []))"
  by code_simp

end
