(* ===== verification/Tls_Props.thy ===== *)
theory Tls_Props
  imports Tls Websocket_Props
begin

text \<open>
  The properties of the TLS transport: its BIO agrees with the plain transport, the buffers of a
  WebSocket connection stay in range over both transports, and what happens when a connection is
  torn down before or after its endpoint lives, and when the peer has not yet answered the closure.
\<close>

section \<open>The BIO and the plain transport\<close>

text \<open>What \<open>Plain::Endpoint::read\<close> makes of the result of a read on the descriptor.\<close>

definition bio_outcome ::
    "fd \<Rightarrow> buffer \<Rightarrow> (int \<times> byte list) \<times> socket_bio \<times> 'w \<Rightarrow>
     (transport_status \<times> plain_endpoint \<times> buffer \<times> 'w) option" where
  "bio_outcome f rx = (\<lambda>((n, bs), bio, w).
     if 0 < n then do { rx \<leftarrow> poke bs rx; Some (T_ok, Some f, wrote (nat n) rx, w) }
     else Some (if n = 0 then T_close else if bio_retry_read bio then T_want_read else T_error, Some f, rx, w))"

lemma bio_read_loop_plain:
  assumes "bio_read_loop N f (wbuf_size rx) bio w = Some r" "\<not> bio_retry_read bio"
  shows "plain_read N (Some f) rx w = bio_outcome f rx r"
proof -
  let ?P = "\<lambda>N f outl bio w r. \<forall>rx. outl = wbuf_size rx \<longrightarrow> \<not> bio_retry_read bio \<longrightarrow> plain_read N (Some f) rx w = bio_outcome f rx r"
  have "?P N f (wbuf_size rx) bio w r"
  proof (rule bio_read_loop.raw_induct [where P = ?P, OF _ assms(1)], intro allI impI, goal_cases step)
    case (step rec N f outl bio w r rx)
    obtain n e bs w1 where rd: "net_read N f (wbuf_size rx) w = ((n, e, bs), w1)" by (metis surj_pair)
    show ?case
    proof (cases "n < 0 \<and> e = EINTR")
      case True
      with step(2,3) rd have "rec N f (wbuf_size rx) bio w1 = Some r" by simp
      from step(1) [OF this] step(4) have "plain_read N (Some f) rx w1 = bio_outcome f rx r" by blast
      with True rd show ?thesis by (subst plain_read.simps) simp
    next
      case False
      with step(2,3,4) rd show ?thesis
        by (subst plain_read.simps) (auto simp: bio_outcome_def split: if_splits)
    qed
  qed
  with assms(2) show ?thesis by blast
qed

lemma plain_read_bio_loop:
  assumes "plain_read N (Some f) rx w = Some r"
  shows "bio_read_loop N f (wbuf_size rx) bio w \<noteq> None"
proof -
  let ?P = "\<lambda>N ep rx w r. \<forall>f. ep = Some f \<longrightarrow> bio_read_loop N f (wbuf_size rx) bio w \<noteq> None"
  have "?P N (Some f) rx w r"
  proof (rule plain_read.raw_induct [where P = ?P, OF _ assms], intro allI impI, goal_cases step)
    case (step rec N ep rx w r f)
    obtain n e bs w1 where rd: "net_read N f (wbuf_size rx) w = ((n, e, bs), w1)" by (metis surj_pair)
    show ?case
    proof (cases "n < 0 \<and> e = EINTR")
      case True
      with step(2,3) rd have "rec N (Some f) rx w1 = Some r" by (auto split: if_splits)
      from step(1) [OF this] have "bio_read_loop N f (wbuf_size rx) bio w1 \<noteq> None" by blast
      with True rd show ?thesis by (subst bio_read_loop.simps) simp
    next
      case False
      with rd show ?thesis by (subst bio_read_loop.simps) auto
    qed
  qed
  then show ?thesis by blast
qed

section \<open>A sample library\<close>

text \<open>
  An OpenSSL whose handshake succeeds at once and whose records are the bytes of the scripted
  descriptor; \<open>closed\<close> is what \<open>SSL_shutdown\<close> returns, and asking for an error without one
  answers \<open>SSL_ERROR_SYSCALL\<close>.
\<close>

definition sample_ssl :: "int \<Rightarrow> (script, unit, unit) openssl" where
  "sample_ssl closed =
     \<lparr>tls_once = (\<lambda>_. True), set_tls_once = id, g_tls_ctx = (\<lambda>_. Some ()), set_g_tls_ctx = (\<lambda>_ w. w),
      SSL_CTX_new = (\<lambda>w. (Some (), w)), SSL_CTX_set_default_verify_paths = (\<lambda>_ w. (1, w)),
      SSL_CTX_set_min_proto_version = (\<lambda>_ _ w. w), SSL_CTX_free = (\<lambda>_ w. w), BIO_alloc = (\<lambda>w. (True, w)),
      SSL_new = (\<lambda>_ w. (Some (), w)), SSL_set_bio = (\<lambda>_ _ w. w), SSL_set_connect_state = (\<lambda>_ w. w),
      SSL_set_tlsext_host_name = (\<lambda>_ _ w. (1, w)), SSL_set_verify_peer = (\<lambda>_ w. w),
      SSL_set1_host = (\<lambda>_ _ w. (1, w)), SSL_free = (\<lambda>_ w. w), SSL_connect = (\<lambda>_ w. (1, w)),
      SSL_read = (\<lambda>_ n w. case sample_read 3 n w of ((len, e, bs), w) \<Rightarrow> ((len, bs), w)),
      SSL_write = (\<lambda>_ bs w. case sample_write 3 bs w of ((len, e), w) \<Rightarrow> (len, w)),
      SSL_shutdown = (\<lambda>_ w. (closed, w)),
      SSL_get_error = (\<lambda>_ r w. (if r = -1 then SSL_ERROR_WANT_READ else SSL_ERROR_SYSCALL, w))\<rparr>"

lemma sample_ssl_wf: "ssl_wf (sample_ssl closed)"
  by (auto simp: ssl_wf_def sample_ssl_def sample_read_def sample_write_def split: list.splits if_splits)

definition tls_T :: "int \<Rightarrow> (script, sample_event, unit tls_endpoint, byte list list session, string, unit ws_config) templ" where
  "tls_T closed = tls_templ sample_net sample_resolver (sample_ssl closed) (WebSocket sample_ws)"

definition tls_new :: "int \<Rightarrow> (script, unit tls_endpoint, byte list list session, string, unit ws_config) conn" where
  "tls_new closed = Connection (tls_T closed) 300 300 ''h'' 443 ''h'' \<lparr>wc_path = ''/'', wc_extra = [], wc_codec_config = ()\<rparr>
     \<lparr>sc_in = [], sc_out = []\<rparr>"

definition tls_connecting :: "(script, unit tls_endpoint, byte list list session, string, unit ws_config) conn" where
  "tls_connecting = the (attach (tls_T 1) 1 (tls_new 1))"

lemma tls_connecting:
  "attach (tls_T 1) 1 (tls_new 1) = Some tls_connecting" "c_state tls_connecting = S_in_progress"
  "c_fd tls_connecting = 3" "live_ssl (c_transport tls_connecting) = None"
proof -
  have "attach (tls_T 1) 1 (tls_new 1) \<noteq> None" by code_simp
  then show "attach (tls_T 1) 1 (tls_new 1) = Some tls_connecting" by (auto simp: tls_connecting_def)
  show "c_state tls_connecting = S_in_progress" "c_fd tls_connecting = 3" "live_ssl (c_transport tls_connecting) = None"
    by code_simp+
qed

lemma tls_connecting_life: "lifecycle (tls_T 1) tls_connecting"
  by (rule life_attach [OF _ _ tls_connecting(1) [unfolded tls_new_def]]) simp_all

text \<open>The same transport under the echo session.\<close>

definition tls_echo :: "(script, sample_event, unit tls_endpoint, unit, string, unit) templ" where
  "tls_echo = tls_templ sample_net sample_resolver (sample_ssl 1) Echo"

definition tls_echo_new :: "(script, unit tls_endpoint, unit, string, unit) conn" where
  "tls_echo_new = Connection tls_echo 8 8 ''h'' 443 ''h'' () \<lparr>sc_in = [], sc_out = []\<rparr>"

definition sample_fail :: sample_event where
  "sample_fail = \<lparr>se_close = True, se_error = True, se_read = False, se_write = False\<rparr>"

section \<open>Buffers over TLS\<close>

interpretation tls_ws: lawful_parts Tls ssl_wf WebSocket "\<lambda>E. codec_ok (we_codec E)" ..

section \<open>Properties\<close>

text \<open>
  C23: the BIO reads as the plain transport does.  For every behaviour of the descriptor, what
  \<open>Plain::Endpoint::read\<close> does is determined by the result of \<open>bio_read\<close>: both retry interrupted
  calls, deliver the same bytes, and tell a would-block from a failure by the retry flag.
\<close>

theorem bio_read_matches_plain:
  assumes "bio_data bio = Some f"
  shows "plain_read N (Some f) rx w = bio_read N (wbuf_size rx) bio w \<bind> bio_outcome f rx"
proof (cases "bio_read_loop N f (wbuf_size rx) (clear_retry bio) w")
  case None
  with plain_read_bio_loop [of N f rx w _ "clear_retry bio"] have "plain_read N (Some f) rx w = None"
    by (cases "plain_read N (Some f) rx w") auto
  with None assms show ?thesis by (simp add: bio_read_def)
next
  case (Some r)
  with bio_read_loop_plain [OF Some] assms show ?thesis by (simp add: bio_read_def clear_retry_def)
qed

theorem bio_read_matches_plain_witness:
  "plain_read sample_net (Some 3) (new_buffer 4) \<lparr>sc_in = [1, 2] # [], sc_out = []\<rparr> =
     bio_read sample_net 4 (snd (bio_create undefined)\<lparr>bio_data := Some 3\<rparr>) \<lparr>sc_in = [1, 2] # [], sc_out = []\<rparr> \<bind> bio_outcome 3 (new_buffer 4)"
  using bio_read_matches_plain [of "snd (bio_create undefined)\<lparr>bio_data := Some 3\<rparr>" 3 sample_net "new_buffer 4"]
  by (simp add: wbuf_size_def new_buffer_def cap_def)





text \<open>
  A restarted connection frees its endpoint twice.  A secure connection that connects, is
  stopped and closes, is restarted and is stopped again before the connection attempt ends: the
  second stop frees the endpoint the first one has freed.
\<close>

theorem tls_restart_double_free:
  "map_option (\<lambda>c. (c_state c, c_transport c, Option.is_none (stop tls_echo c)))
     (attach tls_echo 1 tls_echo_new \<bind> handle_event tls_echo sample_rw \<bind> stop tls_echo \<bind> restart tls_echo) =
   Some (S_in_progress, Ssl_freed, True)"
  by code_simp

text \<open>
  C36: closing before the peer has answered ends in error.  \<open>SSL_shutdown\<close> returns 0 when our
  closure is sent and the peer's has not arrived yet; OpenSSL then reports no error of its own, and
  asking for one yields \<open>SSL_ERROR_SYSCALL\<close>.  \<open>shutdown_step\<close> takes that for a failure, and the
  connection ends in \<open>error\<close>, which the reactor does not restart.
\<close>

theorem tls_half_close_is_error:
  assumes "c_state c = S_close_transport" "c_transport c = Ssl_live s" "SSL_shutdown S s (c_world c) = (0, w)"
    and "SSL_get_error S s 0 w = (SSL_ERROR_SYSCALL, w')" "p_teardown P = None"
  shows "\<exists>c'. handle_event (tls_templ N R S P) ev c = Some c' \<and> c_state c' = S_error \<and> c_fd c' = -1"
proof -
  let ?T = "tls_templ N R S P" and ?c = "c\<lparr>c_transport := Ssl_live s, c_world := w'\<rparr>"
  have "enter_error ?T ?c \<noteq> None"
    using assms(5) by (simp add: enter_error_def teardown_def teardown_protocol_def tls_templ_def Tls_def tls_destroy_def)
  then obtain c1 where c1: "enter_error ?T ?c = Some c1" by blast
  note st = enter_error_state [OF c1]
  have "t_shutdown_step (transport_of ?T) = Some (tls_shutdown_step S)" by (simp add: tls_templ_def Tls_def)
  then have "dispatch ?T (Some ev) c = Some (True, c1)"
    using assms(1-4) c1 by (simp add: dispatch_def step_close_transport_def tls_shutdown_step_def)
  with steps_step [OF this] st assms(1) steps_done [of c1 ?T "Some ev"] show ?thesis
    by (simp add: handle_event_def conn_done_def)
qed

theorem tls_half_close_is_error_witness:
  "\<exists>c'. handle_event (tls_templ sample_net sample_resolver (sample_ssl 0) Echo) sample_rw
        (tls_echo_new\<lparr>c_state := S_close_transport, c_fd := 3, c_transport := Ssl_live ()\<rparr>) = Some c' \<and>
      c_state c' = S_error \<and> c_fd c' = -1"
proof (rule tls_half_close_is_error)
  let ?c = "tls_echo_new\<lparr>c_state := S_close_transport, c_fd := 3, c_transport := Ssl_live ()\<rparr>"
  show "SSL_shutdown (sample_ssl 0) () (c_world ?c) = (0, c_world ?c)"
    "SSL_get_error (sample_ssl 0) () 0 (c_world ?c) = (SSL_ERROR_SYSCALL, c_world ?c)"
    by (simp_all add: sample_ssl_def)
qed (simp_all add: Echo_def)

end
