(* ===== verification/Websocket_Type.thy ===== *)
theory Websocket_Type
  imports Tls_Props
begin

text \<open>
  The type invariant of the WebSocket session.  What the member types of \<open>Session\<close> promise and the
  handlers rely on (a fill level inside the message buffer, a key of 28 characters, an opcode that is
  the one of a first fragment) is kept by every handler, and so holds through the whole life of a
  connection, whatever its transport.
\<close>

definition session_typed :: "('w, 'cs, 'cc) ws_env \<Rightarrow> 'cs session \<Rightarrow> bool" where
  "session_typed E s \<longleftrightarrow> length (ss_msg_buf s) = we_msg_cap E \<and> ss_msg_len s \<le> we_msg_cap E \<and>
     length (ss_ws_accept_key s) = 28 \<and> ss_opcode s \<noteq> Some Op_cont"

abbreviation typed_post :: "('w, 'cs, 'cc) ws_env \<Rightarrow> protocol_status \<times> 'cs session \<times> buffer \<times> buffer \<times> 'w \<Rightarrow> bool" where
  "typed_post E r \<equiv> session_typed E (fst (snd r))"

lemma session_typed_update [simp]:
  "session_typed E (s\<lparr>ss_codec := cs\<rparr>) = session_typed E s" "session_typed E (s\<lparr>ss_state := st\<rparr>) = session_typed E s"
  by (simp_all add: session_typed_def)

lemma session_typed_reset: "session_typed E s \<Longrightarrow> session_typed E (s\<lparr>ss_msg_len := 0\<rparr>)"
  by (simp add: session_typed_def)

lemma handler_keepsI:
  "(\<And>s rx tx w. I s \<Longrightarrow> ensures (\<lambda>r. I (fst (snd r))) (h s rx tx w)) \<Longrightarrow> handler_keeps I h"
  by (fastforce simp: handler_keeps_def ensures_def)

section \<open>The handlers\<close>

lemma call_codec_typed: "session_typed E s \<Longrightarrow> ensures (typed_post E) (call_codec h payload s rx tx w)"
  by (auto simp: call_codec_def case_prod_unfold intro: ensures_any split: option.split)

lemma ensures_True [simp]: "ensures (\<lambda>_. True) m"
  by (rule ensures_any) simp

lemma handle_frame_typed: "session_typed E s \<Longrightarrow> ensures (typed_post E) (handle_frame E opc payload s rx tx w)"
  by (cases opc) (simp_all add: handle_frame_def call_codec_typed case_prod_unfold Let_def)

lemma collect_fragment_typed:
  assumes "session_typed E s"
  shows "ensures (typed_post E) (collect_fragment E frame payload s rx tx w)"
proof (cases "ss_msg_len s + length payload \<le> we_msg_cap E")
  case True
  let ?s = "s\<lparr>ss_msg_buf := blit (ss_msg_len s) payload (ss_msg_buf s), ss_msg_len := ss_msg_len s + length payload\<rparr>"
  have s: "session_typed E ?s" using assms True by (simp add: session_typed_def)
  have fin: "ensures (\<lambda>r. session_typed E ((fst (snd r))\<lparr>ss_msg_len := 0\<rparr>)) (handle_frame E opc p ?s rx tx w)" for opc p
    by (rule ensures_mono [OF handle_frame_typed [OF s]]) (rule session_typed_reset)
  have "session_typed E (?s\<lparr>ss_opcode := Some opc\<rparr>)" if "opc \<noteq> Op_cont" for opc
    using s that by (simp add: session_typed_def)
  with assms s fin True show ?thesis
    by (cases "ss_opcode s") (simp_all add: collect_fragment_def Let_def case_prod_unfold)
qed (use assms in \<open>simp add: collect_fragment_def\<close>)

lemma dispatch_frame_typed:
  assumes "session_typed E s"
  shows "ensures (typed_post E) (dispatch_frame E s rx tx w)"
proof -
  obtain st po where p: "parse_frame (rbuf rx) = (st, po)" by fastforce
  have "ensures (typed_post E) (dispatch_frame E s rx tx w)" if "st = PS_ok" "po = Some q" for q
    using handle_frame_typed [OF assms] collect_fragment_typed [OF assms] that
    by (auto simp: dispatch_frame_def p Let_def intro: ensures_any)
  then show ?thesis using assms by (cases st; cases po) (simp_all add: dispatch_frame_def p)
qed

lemma on_data_typed: "session_typed E s \<Longrightarrow> ensures (typed_post E) (on_data E s rx tx w)"
  by (auto simp: on_data_def Let_def case_prod_unfold dispatch_frame_typed intro: ensures_any split: ws_state.split)

lemma on_connect_typed:
  assumes "\<forall>bs. length (we_sha1 E bs) = 20" "session_typed E s"
  shows "ensures (typed_post E) (on_connect E s rx tx w)"
proof -
  obtain hs w' where hs: "make_handshake (we_rd E) (we_sha1 E) (ss_host s) (ss_path s) (ss_extra s) w = (hs, w')" by fastforce
  have "length (ws_accept_key hs) = 28" 
    using accept_key_ok(1) [OF assms(1), of "ws_accept_key hs" "we_rd E" "ss_host s" "ss_path s" "ss_extra s" w] by (simp add: hs)
  then have "session_typed E (s\<lparr>ss_ws_accept_key := ws_accept_key hs, ss_state := WS_handshake_sent\<rparr>)"
    using assms(2) by (simp add: session_typed_def)
  with assms(2) show ?thesis by (simp add: on_connect_def hs)
qed

lemma on_shutdown_typed: "session_typed E s \<Longrightarrow> ensures (typed_post E) (on_shutdown E s rx tx w)"
  by (cases "cd_on_shutdown (we_codec E)") (auto simp: on_shutdown_def Let_def case_prod_unfold intro: ensures_any)

lemma ws_heartbeat_session: "ws_heartbeat E s tx w = Some (s', tx', w') \<Longrightarrow> s' = s"
  by (auto simp: ws_heartbeat_def case_prod_unfold Let_def defined_iff)

lemma ws_session_inv:
  assumes "\<forall>bs. length (we_sha1 E bs) = 20"
  shows "session_inv (WebSocket E) (session_typed E)"
  unfolding session_inv_def
proof (intro conjI allI impI)
  show "handler_keeps (session_typed E) (p_on_data (WebSocket E))"
    by (rule handler_keepsI) (simp add: WebSocket_def on_data_typed)
  show "pred_option (handler_keeps (session_typed E)) (p_on_connect (WebSocket E))"
    using on_connect_typed [OF assms] by (auto simp: WebSocket_def intro!: handler_keepsI)
  show "pred_option (handler_keeps (session_typed E)) (p_on_shutdown (WebSocket E))"
    by (auto simp: WebSocket_def on_shutdown_typed intro!: handler_keepsI)
qed (auto simp: WebSocket_def Session_def session_typed_def dest!: ws_heartbeat_session)

section \<open>Properties\<close>

text \<open>
  C8: a session stays well-typed.  Through any life of a connection with a WebSocket session, over any
  transport and for any behaviour of the peer and the codec, the message buffer keeps its size, its fill
  level stays inside it, the accept key has 28 characters, and the remembered opcode is never the one of
  a continuation frame.
\<close>

theorem ws_session_typed:
  assumes "\<forall>bs. length (we_sha1 E bs) = 20" "protocol_of T = WebSocket E" "lifecycle T c"
  shows "length (ss_msg_buf (c_protocol c)) = we_msg_cap E \<and> ss_msg_len (c_protocol c) \<le> we_msg_cap E \<and>
     length (ss_ws_accept_key (c_protocol c)) = 28 \<and> ss_opcode (c_protocol c) \<noteq> Some Op_cont"
  using lifecycle_session [OF _ assms(3), unfolded assms(2), OF ws_session_inv [OF assms(1)]]
  by (simp add: session_typed_def)

theorem ws_session_typed_witness:
  "ss_msg_len (c_protocol tls_connecting) \<le> 16 \<and> length (ss_ws_accept_key (c_protocol tls_connecting)) = 28"
proof -
  let ?E = "sample_ws :: (script, byte list list, unit) ws_env"
  have "\<forall>bs. length (we_sha1 ?E bs) = 20" by (simp add: sample_ws_def sample_sha1_def)
  from ws_session_typed [OF this _ tls_connecting_life] show ?thesis
    by (simp add: tls_T_def tls_templ_def) (simp add: sample_ws_def)
qed

end
