(* ===== verification/Binance_Codec.thy ===== *)
theory Binance_Codec
  imports Websocket_Props
begin

text \<open>
  \<^verbatim>\<open>examples/binance_codec.hpp\<close>: the codec \<open>BinanceDepth\<close> that turns depth messages into one
  event for every price level.  The views that \<open>sbepp\<close> generates from the message schema are the
  record \<open>sbe\<close>, and the queue of \<open>rigtorp\<close> is the record \<open>spsc\<close> of its operations on the
  world; \<open>spsc_ok\<close> says what the queue documents.
\<close>

section \<open>Events, views and the queue\<close>

datatype Side = Bid | Ask

datatype Symbol = BTC

type_synonym i64 = "64 word"
type_synonym i8 = "8 word"

record DepthEvent =
  symbol :: Symbol
  side :: Side
  event_time_ns :: i64
  update_id :: i64
  price_exp :: i64
  price :: i64
  qty_exp :: i64
  qty :: i64

record depth_level =
  lv_price :: i64
  lv_qty :: i64

record depth_diff =
  eventTime :: i64
  lastBookUpdateId :: i64
  priceExponent :: i8
  qtyExponent :: i8
  asks :: "depth_level list"
  bids :: "depth_level list"

text \<open>
  The view functions; reading the template id of a payload that does not hold a message header is
  outside their precondition, \<open>None\<close>.
\<close>

record sbe =
  sbe_templateId :: "byte list \<Rightarrow> u16 option"
  sbe_size_valid :: "byte list \<Rightarrow> bool"
  sbe_diff :: "byte list \<Rightarrow> depth_diff"
  DepthDiffEventId :: u16
  BestBidAskEventId :: u16
  DepthSnapshotEventId :: u16
  TradesEventId :: u16

record 'w spsc =
  try_push :: "DepthEvent \<Rightarrow> 'w \<Rightarrow> bool \<times> 'w"
  front :: "'w \<Rightarrow> DepthEvent option"
  pop :: "'w \<Rightarrow> 'w"

section \<open>The codec\<close>

definition depth_event :: "depth_diff \<Rightarrow> Side \<Rightarrow> depth_level \<Rightarrow> DepthEvent" where
  "depth_event diff sd l =
     \<lparr>symbol = BTC, side = sd, event_time_ns = eventTime diff, update_id = lastBookUpdateId diff,
      price_exp = scast (priceExponent diff), price = lv_price l,
      qty_exp = scast (qtyExponent diff), qty = lv_qty l\<rparr>"

text \<open>One of the two loops of \<open>push_diff\<close>; the flag tells whether it ran to its end.\<close>

fun push_levels :: "'w spsc \<Rightarrow> depth_diff \<Rightarrow> Side \<Rightarrow> depth_level list \<Rightarrow> 'w \<Rightarrow> bool \<times> 'w" where
  "push_levels Q diff sd [] w = (True, w)"
| "push_levels Q diff sd (l # ls) w =
     (let (ok, w) = try_push Q (depth_event diff sd l) w
      in if \<not> ok then (False, w) else push_levels Q diff sd ls w)"

definition push_diff :: "'w spsc \<Rightarrow> depth_diff \<Rightarrow> 'w \<Rightarrow> protocol_status \<times> 'w" where
  "push_diff Q diff w =
     (let (ok, w) = push_levels Q diff Ask (asks diff) w
      in if \<not> ok then (P_ok, w)
         else let (ok, w) = push_levels Q diff Bid (bids diff) w
              in (P_ok, w))"

definition on_binary :: "sbe \<Rightarrow> ('w, 'w spsc) message_handler" where
  "on_binary V Q payload rx tx w = do {
     tid \<leftarrow> sbe_templateId V payload;
     if tid = DepthDiffEventId V then
       if \<not> sbe_size_valid V payload then Some (P_error, Q, rx, tx, w)
       else let (st, w) = push_diff Q (sbe_diff V payload) w in Some (st, Q, rx, tx, w)
     else if tid = BestBidAskEventId V then Some (P_ok, Q, rx, tx, w)
     else if tid = DepthSnapshotEventId V then Some (P_ok, Q, rx, tx, w)
     else if tid = TradesEventId V then Some (P_ok, Q, rx, tx, w)
     else Some (P_error, Q, rx, tx, w)
   }"

text \<open>The codec has a handler for binary messages only; its state is the queue it was given.\<close>

definition BinanceDepth :: "sbe \<Rightarrow> ('w, 'w spsc, 'w spsc) codec" where
  "BinanceDepth V = \<lparr>cd_new = (\<lambda>queue. queue), cd_on_text = None, cd_on_binary = Some (on_binary V), cd_on_shutdown = None\<rparr>"

section \<open>The queue's contract\<close>

definition spsc_ok :: "'w spsc \<Rightarrow> ('w \<Rightarrow> DepthEvent list) \<Rightarrow> nat \<Rightarrow> bool" where
  "spsc_ok Q contents limit \<longleftrightarrow>
     (\<forall>e w. fst (try_push Q e w) = (length (contents w) < limit) \<and>
        contents (snd (try_push Q e w)) = contents w @ (if length (contents w) < limit then [e] else [])) \<and>
     (\<forall>w. front Q w = (case contents w of [] \<Rightarrow> None | e # _ \<Rightarrow> Some e)) \<and>
     (\<forall>w. contents w \<noteq> [] \<longrightarrow> contents (pop Q w) = tl (contents w))"

lemma spsc_push:
  assumes "spsc_ok Q contents limit" "try_push Q e w = (ok, w')"
  shows "ok = (length (contents w) < limit)" "contents w' = contents w @ (if ok then [e] else [])"
proof -
  have "fst (try_push Q e w) = (length (contents w) < limit)"
    "contents (snd (try_push Q e w)) = contents w @ (if length (contents w) < limit then [e] else [])"
    using assms(1) unfolding spsc_ok_def by blast+
  then show "ok = (length (contents w) < limit)" "contents w' = contents w @ (if ok then [e] else [])"
    unfolding assms(2) fst_conv snd_conv by simp_all
qed

lemma spsc_front:
  assumes "spsc_ok Q contents limit" "front Q w = Some e"
  shows "contents w = e # contents (pop Q w)"
proof -
  have f: "front Q w = (case contents w of [] \<Rightarrow> None | e # _ \<Rightarrow> Some e)"
    and p: "contents w \<noteq> [] \<Longrightarrow> contents (pop Q w) = tl (contents w)"
    using assms(1) unfolding spsc_ok_def by blast+
  from f assms(2) p show ?thesis by (cases "contents w") simp_all
qed

section \<open>What a message pushes\<close>

definition diff_events :: "depth_diff \<Rightarrow> DepthEvent list" where
  "diff_events diff = map (depth_event diff Ask) (asks diff) @ map (depth_event diff Bid) (bids diff)"

lemma push_levels_queue:
  assumes Q: "spsc_ok Q contents limit"
  shows "push_levels Q diff sd ls w = (ok, w') \<Longrightarrow>
     contents w' = contents w @ take (limit - length (contents w)) (map (depth_event diff sd) ls) \<and>
     (ok \<longleftrightarrow> length ls \<le> limit - length (contents w))"
proof (induction ls arbitrary: w)
  case (Cons l ls)
  obtain k w1 where p: "try_push Q (depth_event diff sd l) w = (k, w1)" by fastforce
  note q = spsc_push [OF Q p]
  show ?case
  proof (cases k)
    case True
    with Cons.prems p have "push_levels Q diff sd ls w1 = (ok, w')" by simp
    from Cons.IH [OF this] q True show ?thesis by (auto simp: Suc_diff_Suc take_Cons' Suc_le_eq)
  next
    case False
    with Cons.prems p q show ?thesis by auto
  qed
qed simp

lemma push_diff_queue:
  assumes "spsc_ok Q contents limit" "push_diff Q diff w = (st, w')"
  shows "st = P_ok \<and> contents w' = contents w @ take (limit - length (contents w)) (diff_events diff)"
proof -
  obtain k w1 where a: "push_levels Q diff Ask (asks diff) w = (k, w1)" by fastforce
  obtain k2 w2 where b: "push_levels Q diff Bid (bids diff) w1 = (k2, w2)" by fastforce
  from push_levels_queue [OF assms(1) a] push_levels_queue [OF assms(1) b] assms(2) a b show ?thesis
    by (auto simp: push_diff_def diff_events_def split: if_splits)
qed

text \<open>The handler leaves both buffers alone, so the session laws hold for this codec.\<close>

lemma on_binary_buffers: "on_binary V Q payload rx tx w = Some (st, Q', rx', tx', w') \<Longrightarrow> Q' = Q \<and> rx' = rx \<and> tx' = tx"
  by (auto simp: on_binary_def case_prod_unfold Let_def split: if_splits Option.bind_splits)

lemma BinanceDepth_ok: "codec_ok (BinanceDepth V)"
  by (auto simp: codec_ok_def BinanceDepth_def message_handler_ok_def dest: on_binary_buffers)

section \<open>A sample queue and sample views\<close>

text \<open>A queue that is the world itself, with room for three events, and a view of the header as the schema lays it out.\<close>

definition list_spsc :: "DepthEvent list spsc" where
  "list_spsc = \<lparr>try_push = (\<lambda>e w. if length w < 3 then (True, w @ [e]) else (False, w)),
     front = (\<lambda>w. case w of [] \<Rightarrow> None | e # _ \<Rightarrow> Some e), pop = tl\<rparr>"

definition sample_diff :: depth_diff where
  "sample_diff = \<lparr>eventTime = 5, lastBookUpdateId = 6, priceExponent = -2, qtyExponent = -8,
     asks = [\<lparr>lv_price = 10, lv_qty = 1\<rparr>, \<lparr>lv_price = 11, lv_qty = 2\<rparr>],
     bids = [\<lparr>lv_price = 9, lv_qty = 3\<rparr>, \<lparr>lv_price = 8, lv_qty = 4\<rparr>]\<rparr>"

definition sample_sbe :: sbe where
  "sample_sbe = \<lparr>sbe_templateId = (\<lambda>p. if length p < 8 then None else Some (ucast (p ! 2) OR push_bit 8 (ucast (p ! 3)))),
     sbe_size_valid = (\<lambda>p. 8 \<le> length p), sbe_diff = (\<lambda>_. sample_diff), DepthDiffEventId = 10003,
     BestBidAskEventId = 10001, DepthSnapshotEventId = 10002, TradesEventId = 10000\<rparr>"

definition sample_depth_ws :: "(DepthEvent list, DepthEvent list spsc, DepthEvent list spsc) ws_env" where
  "sample_depth_ws = \<lparr>we_rd = (\<lambda>w. (0, w)), we_sha1 = (\<lambda>_. replicate 20 0), we_codec = BinanceDepth sample_sbe, we_msg_cap = 16\<rparr>"

definition sample_depth_session :: "DepthEvent list spsc session" where
  "sample_depth_session =
     (Session sample_depth_ws ''h'' 443 \<lparr>wc_path = ''/'', wc_extra = [], wc_codec_config = list_spsc\<rparr>)\<lparr>ss_state := WS_listening\<rparr>"

lemma list_spsc_ok: "spsc_ok list_spsc (\<lambda>w. w) 3"
  by (simp add: spsc_ok_def list_spsc_def)

section \<open>Properties\<close>

text \<open>
  C14: a depth message reaches the queue.  When the receive buffer of a session with the codec
  \<open>BinanceDepth\<close> starts with the fragments of a binary message that is a valid depth diff, handling
  them appends the events of the message to the queue, the asks before the bids and each in the
  order of the message, as far as the queue has room: the events that do not fit are dropped,
  always a tail of the message, and the connection goes on.
\<close>

theorem depth_message_queued:
  assumes "spsc_ok Q contents limit" "we_codec E = BinanceDepth V" "ss_codec s = Q"
    and "ss_state s = WS_listening" "session_wf E s" "ss_msg_len s = 0" "buffer_ok rx"
    and "rbuf rx = fragments Op_binary p0 ps pn @ rest" "length (p0 @ concat ps @ pn) \<le> we_msg_cap E"
    and "sbe_templateId V (p0 @ concat ps @ pn) = Some (DepthDiffEventId V)" "sbe_size_valid V (p0 @ concat ps @ pn)"
  shows "\<exists>s' rx' w'. feed E (length ps + 2) s rx tx w = Some (P_ok, s', rx', tx, w') \<and> rbuf rx' = rest \<and>
     contents w' = contents w @ take (limit - length (contents w)) (diff_events (sbe_diff V (p0 @ concat ps @ pn)))"
proof -
  let ?msg = "p0 @ concat ps @ pn"
  obtain st w' where d: "push_diff Q (sbe_diff V ?msg) w = (st, w')" by fastforce
  note q = push_diff_queue [OF assms(1) d]
  have opc: "op_ok Op_binary" "Op_binary \<noteq> Op_cont" by (auto simp: op_ok_def)
  obtain s' rx' where r: "rbuf rx' = rest" "ss_codec s' = Q"
    and f: "feed E (length ps + 2) s rx tx w = map_option reset_msg (handle_frame E Op_binary ?msg s' rx' tx w)"
    using feed_fragments [OF assms(4-8) opc assms(9)] assms(3) by metis
  have "on_binary V Q ?msg rx' tx w = Some (P_ok, Q, rx', tx, w')"
    using assms(10,11) d q by (simp add: on_binary_def)
  then have "handle_frame E Op_binary ?msg s' rx' tx w = Some (P_ok, s'\<lparr>ss_codec := Q\<rparr>, rx', tx, w')"
    using r(2) assms(2) by (simp add: handle_frame_def call_codec_def BinanceDepth_def)
  with f r(1) q show ?thesis by (simp add: reset_msg_def)
qed

theorem depth_message_queued_witness:
  "\<exists>s' rx' w'. feed sample_depth_ws 2 sample_depth_session
       (sample_rx (fragments Op_binary [0, 0, 19] [] [39, 0, 0, 0, 0])) (new_buffer 8) [] = Some (P_ok, s', rx', new_buffer 8, w') \<and>
     w' = take 3 (diff_events sample_diff)"
proof -
  let ?p = "[0, 0, 19] @ concat [] @ [39, 0, 0, 0, 0 :: byte]"
  have t: "sbe_templateId sample_sbe ?p = Some (DepthDiffEventId sample_sbe)" "sbe_size_valid sample_sbe ?p"
    by (simp_all add: sample_sbe_def)
  have wf: "session_wf sample_depth_ws sample_depth_session" "ss_state sample_depth_session = WS_listening"
    "ss_msg_len sample_depth_session = 0" "ss_codec sample_depth_session = list_spsc"
    "we_codec sample_depth_ws = BinanceDepth sample_sbe" "length ?p \<le> we_msg_cap sample_depth_ws"
    by (simp_all add: session_wf_def sample_depth_session_def Session_def sample_depth_ws_def BinanceDepth_def)
  have rx: "buffer_ok (sample_rx (fragments Op_binary [0, 0, 19] [] [39, 0, 0, 0, 0]))"
    "rbuf (sample_rx (fragments Op_binary [0, 0, 19] [] [39, 0, 0, 0, 0])) = fragments Op_binary [0, 0, 19] [] [39, 0, 0, 0, 0] @ []"
    by (simp_all add: fragments_def server_frame_def len_bytes_def)
  from depth_message_queued [OF list_spsc_ok wf(5,4,2,1,3) rx wf(6) t, of "new_buffer 8" "[]"] show ?thesis
    by (auto simp: sample_sbe_def numeral_2_eq_2 simp del: feed.simps)
qed

end
