(* ===== verification/Logging.thy ===== *)
theory Logging
  imports Manet_Prelude
begin

text \<open>
  \<^verbatim>\<open>include/manet/logging.hpp\<close>: the log levels, the global threshold and the function every
  message goes through.  \<open>std::vformat\<close> is the argument \<open>vformat\<close>, \<open>None\<close> when it throws; the
  system call on the standard error stream is the argument \<open>write_err\<close>, whose result the code
  ignores.  The flag \<open>enabled\<close> is the constant that a debug build sets.
\<close>

section \<open>Levels\<close>

datatype LogLevel = L_trace | L_info | L_warn | L_error

fun level_idx :: "LogLevel \<Rightarrow> nat" where
  "level_idx L_trace = 0"
| "level_idx L_info = 1"
| "level_idx L_warn = 2"
| "level_idx L_error = 3"

lemma level_idx_inj [simp]: "level_idx a = level_idx b \<longleftrightarrow> a = b"
  by (cases a; cases b) simp_all

instantiation LogLevel :: linorder
begin

definition less_eq_LogLevel :: "LogLevel \<Rightarrow> LogLevel \<Rightarrow> bool" where
  "less_eq_LogLevel a b \<longleftrightarrow> level_idx a \<le> level_idx b"

definition less_LogLevel :: "LogLevel \<Rightarrow> LogLevel \<Rightarrow> bool" where
  "less_LogLevel a b \<longleftrightarrow> level_idx a < level_idx b"

instance
  by standard (auto simp: less_eq_LogLevel_def less_LogLevel_def simp flip: level_idx_inj)

end

definition g_level :: LogLevel where
  "g_level = L_warn"

section \<open>Messages\<close>

definition prefixes :: "string list" where
  "prefixes = [''[Debug]   '', ''[Info]    '', ''[Warning] '', ''[Error]   '']"

definition log_message_to ::
    "bool \<Rightarrow> (string \<Rightarrow> 'a \<Rightarrow> string option) \<Rightarrow> (string \<Rightarrow> 'w \<Rightarrow> 'w) \<Rightarrow> LogLevel \<Rightarrow> LogLevel \<Rightarrow> string \<Rightarrow> 'a \<Rightarrow> 'w \<Rightarrow> 'w" where
  "log_message_to enabled vformat write_err threshold level fmt args w =
     (if \<not> enabled then w
      else if level < threshold then w
      else
        let formatted = (case vformat fmt args of Some s \<Rightarrow> s | None \<Rightarrow> fmt);
            pfx = prefixes ! level_idx level;
            w = write_err pfx w;
            w = write_err formatted w
        in write_err ''\<newline>'' w)"

definition set_level :: "bool \<Rightarrow> LogLevel \<Rightarrow> LogLevel \<Rightarrow> LogLevel" where
  "set_level enabled level threshold = (if enabled then level else threshold)"

text \<open>The functions for the four levels.\<close>

definition log_trace ::
    "bool \<Rightarrow> (string \<Rightarrow> 'a \<Rightarrow> string option) \<Rightarrow> (string \<Rightarrow> 'w \<Rightarrow> 'w) \<Rightarrow> LogLevel \<Rightarrow> string \<Rightarrow> 'a \<Rightarrow> 'w \<Rightarrow> 'w" where
  "log_trace enabled vformat write_err threshold = log_message_to enabled vformat write_err threshold L_trace"

definition log_info ::
    "bool \<Rightarrow> (string \<Rightarrow> 'a \<Rightarrow> string option) \<Rightarrow> (string \<Rightarrow> 'w \<Rightarrow> 'w) \<Rightarrow> LogLevel \<Rightarrow> string \<Rightarrow> 'a \<Rightarrow> 'w \<Rightarrow> 'w" where
  "log_info enabled vformat write_err threshold = log_message_to enabled vformat write_err threshold L_info"

definition log_warn ::
    "bool \<Rightarrow> (string \<Rightarrow> 'a \<Rightarrow> string option) \<Rightarrow> (string \<Rightarrow> 'w \<Rightarrow> 'w) \<Rightarrow> LogLevel \<Rightarrow> string \<Rightarrow> 'a \<Rightarrow> 'w \<Rightarrow> 'w" where
  "log_warn enabled vformat write_err threshold = log_message_to enabled vformat write_err threshold L_warn"

definition log_error ::
    "bool \<Rightarrow> (string \<Rightarrow> 'a \<Rightarrow> string option) \<Rightarrow> (string \<Rightarrow> 'w \<Rightarrow> 'w) \<Rightarrow> LogLevel \<Rightarrow> string \<Rightarrow> 'a \<Rightarrow> 'w \<Rightarrow> 'w" where
  "log_error enabled vformat write_err threshold = log_message_to enabled vformat write_err threshold L_error"

section \<open>Lemmas\<close>

lemma log_quiet: "level < threshold \<Longrightarrow> log_message_to enabled f wr threshold level fmt args w = w"
  by (simp add: log_message_to_def)

lemma log_set_level:
  "log_message_to True f (\<lambda>s out. out @ s) (set_level True l t) k fmt args out =
     out @ (if l \<le> k then prefixes ! level_idx k @ (case f fmt args of Some s \<Rightarrow> s | None \<Rightarrow> fmt) @ ''\<newline>'' else [])"
  by (auto simp: log_message_to_def set_level_def Let_def not_less split: option.split)

text \<open>With the threshold the program starts with, warnings and errors are shown.\<close>

lemma log_default:
  "log_trace e f wr g_level fmt a w = w" "log_info e f wr g_level fmt a w = w"
  "log_error True f (\<lambda>s out. out @ s) g_level fmt a out = out @ ''[Error]   '' @ (case f fmt a of Some s \<Rightarrow> s | None \<Rightarrow> fmt) @ ''\<newline>''"
  by (simp_all add: log_trace_def log_info_def log_error_def log_message_to_def g_level_def less_LogLevel_def prefixes_def Let_def
      split: option.split)

text \<open>The four prefixes have one width and are told apart by their second character.\<close>

lemma prefix_width: "length (prefixes ! level_idx l) = 10"
  by (cases l) (simp_all add: prefixes_def)

lemma prefix_inj: "prefixes ! level_idx a = prefixes ! level_idx b \<longleftrightarrow> a = b"
  by (cases a; cases b) (simp_all add: prefixes_def)

end
