(* ===== verification/App_Config.thy ===== *)
theory App_Config
  imports Logging
begin

text \<open>
  \<^verbatim>\<open>examples/config.cc\<close> and \<^verbatim>\<open>config.hpp\<close>: the command line and the environment of the example
  program.  The library function \<open>getopt_long\<close> is an argument: from the two tables of options and the
  words of the command line it gives the sequence of options found, each with its argument; the flag \<open>fstk\<close> stands for \<open>MANET_USE_FSTACK\<close> and \<open>enabled\<close> for a debug
  build.  A call of \<open>exit\<close> and an exception that nobody catches are the left results.
\<close>

section \<open>Types\<close>

datatype stream = Stdout | Stderr

datatype halt = Exit int stream string | Uncaught

record Args =
  ar_net_config :: "string option"
  ar_net_cpu :: "int option"
  ar_worker_cpu :: "int option"

record Config =
  cf_net_config :: "string option"
  cf_api_key :: string
  cf_net_cpu_id :: "int option"
  cf_worker_cpu_id :: "int option"

section \<open>Numbers\<close>

definition isspace :: "char \<Rightarrow> bool" where
  "isspace c \<longleftrightarrow> c \<in> {CHR '' '', CHR 0x09, CHR 0x0A, CHR 0x0B, CHR 0x0C, CHR 0x0D}"

definition isdigit :: "char \<Rightarrow> bool" where
  "isdigit c \<longleftrightarrow> 48 \<le> (of_char c :: nat) \<and> (of_char c :: nat) \<le> 57"

definition digits_value :: "string \<Rightarrow> int" where
  "digits_value ds = foldl (\<lambda>n c. 10 * n + (of_char c - 48)) 0 ds"

text \<open>\<open>std::stoi\<close>: leading blanks, a sign and digits; what follows is ignored; \<open>None\<close> when it throws.\<close>

definition stoi :: "string \<Rightarrow> int option" where
  "stoi s =
     (let s = dropWhile isspace s;
          (neg, s) = (case s of
              c # cs \<Rightarrow> if c = CHR ''-'' then (True, cs) else if c = CHR ''+'' then (False, cs) else (False, s)
            | [] \<Rightarrow> (False, s));
          ds = takeWhile isdigit s;
          v = (if neg then - digits_value ds else digits_value ds)
      in if ds = [] then None
         else if v < - 2147483648 \<or> 2147483647 < v then None
         else Some v)"

section \<open>The command line\<close>

definition short_opts :: "bool \<Rightarrow> bool \<Rightarrow> string" where
  "short_opts fstk enabled =
     (if fstk then (if enabled then ''+hc:v'' else ''+hc:'') else (if enabled then ''+hv'' else ''+h''))"

record option_row =
  op_name :: string
  op_has_arg :: bool
  op_val :: char

definition long_opts :: "bool \<Rightarrow> option_row list" where
  "long_opts fstk =
     [\<lparr>op_name = ''help'', op_has_arg = False, op_val = CHR ''h''\<rparr>] @
     (if fstk then [\<lparr>op_name = ''config'', op_has_arg = True, op_val = CHR ''c''\<rparr>] else []) @
     [\<lparr>op_name = ''net-cpu'', op_has_arg = True, op_val = CHR ''n''\<rparr>,
      \<lparr>op_name = ''worker-cpu'', op_has_arg = True, op_val = CHR ''w''\<rparr>]"

type_synonym getopt = "string \<Rightarrow> option_row list \<Rightarrow> string list \<Rightarrow> (char \<times> string) list"

definition net_name :: "bool \<Rightarrow> string" where
  "net_name fstk = (if fstk then ''F-Stack'' else ''Epoll'')"

definition helpful_exit :: "bool \<Rightarrow> bool \<Rightarrow> string \<Rightarrow> int \<Rightarrow> halt" where
  "helpful_exit fstk enabled pname status =
     Exit status (if status = 0 then Stdout else Stderr)
       (''usage: '' @ pname @ '' [options]\<newline>\<newline>'' @
        ''net: '' @ net_name fstk @ ''\<newline>\<newline>'' @
        ''options:\<newline>'' @
        ''  -h, --help            show help\<newline>'' @
        (if fstk then ''  -c <conf>             F-Stack config file\<newline>'' else []) @
        ''  --net-cpu <id>        pin network thread to CPU <id>\<newline>'' @
        ''  --worker-cpu <id>     pin worker thread to CPU <id>\<newline>'' @
        (if enabled then ''  -v|-vv              set verbose\<newline>'' else []))"

fun read_opts ::
    "bool \<Rightarrow> bool \<Rightarrow> string \<Rightarrow> (char \<times> string) list \<Rightarrow> Args \<Rightarrow> nat \<Rightarrow> halt + Args \<times> nat" where
  "read_opts fstk enabled pname [] args v_count = Inr (args, v_count)"
| "read_opts fstk enabled pname ((c, optarg) # os) args v_count =
     (if c = CHR ''w'' then
        case stoi optarg of
          None \<Rightarrow> Inl Uncaught
        | Some n \<Rightarrow> read_opts fstk enabled pname os (args\<lparr>ar_worker_cpu := Some n\<rparr>) v_count
      else if c = CHR ''n'' then
        case stoi optarg of
          None \<Rightarrow> Inl Uncaught
        | Some n \<Rightarrow> read_opts fstk enabled pname os (args\<lparr>ar_net_cpu := Some n\<rparr>) v_count
      else if c = CHR ''h'' then Inl (helpful_exit fstk enabled pname 0)
      else if fstk \<and> c = CHR ''c'' then
        read_opts fstk enabled pname os (args\<lparr>ar_net_config := Some optarg\<rparr>) v_count
      else if c = CHR ''v'' then read_opts fstk enabled pname os args (v_count + 1)
      else Inl (helpful_exit fstk enabled pname (-1)))"

definition read_args ::
    "getopt \<Rightarrow> bool \<Rightarrow> bool \<Rightarrow> string \<Rightarrow> string list \<Rightarrow> LogLevel \<Rightarrow> halt + Args \<times> LogLevel" where
  "read_args getopt_long fstk enabled pname argv level =
     (case read_opts fstk enabled pname (getopt_long (short_opts fstk enabled) (long_opts fstk) argv)
             \<lparr>ar_net_config = None, ar_net_cpu = None, ar_worker_cpu = None\<rparr> 0 of
        Inl h \<Rightarrow> Inl h
      | Inr (args, v_count) \<Rightarrow>
          Inr (args, if v_count \<noteq> 0 then set_level enabled (if v_count = 1 then L_info else L_trace) level else level))"

definition get_config ::
    "getopt \<Rightarrow> bool \<Rightarrow> bool \<Rightarrow> string \<Rightarrow> string list \<Rightarrow> string option \<Rightarrow> LogLevel \<Rightarrow> halt + Config \<times> LogLevel" where
  "get_config getopt_long fstk enabled pname argv api level =
     (case read_args getopt_long fstk enabled pname argv level of
        Inl h \<Rightarrow> Inl h
      | Inr (args, level) \<Rightarrow>
          let api_key = (case api of Some s \<Rightarrow> s | None \<Rightarrow> [])
          in if api_key = [] then Inl (Exit 1 Stderr ''MBX_APIKEY is not set!\<newline>'')
             else Inr (\<lparr>cf_net_config = ar_net_config args, cf_api_key = api_key,
                        cf_net_cpu_id = ar_net_cpu args, cf_worker_cpu_id = ar_worker_cpu args\<rparr>, level))"

section \<open>What a successful reading means\<close>

definition last_arg :: "char \<Rightarrow> (char \<times> string) list \<Rightarrow> string option" where
  "last_arg c os = map_of (rev os) c"

lemma last_arg_simps [simp]:
  "last_arg c [] = None"
  "last_arg c (o1 # os) = (case last_arg c os of Some a \<Rightarrow> Some a | None \<Rightarrow> if fst o1 = c then Some (snd o1) else None)"
  by (auto simp: last_arg_def map_add_def split: option.split)

text \<open>Of several options of a kind the last one counts, and every number given must be one.\<close>

lemma read_opts_last:
  "read_opts fstk enabled pname os args v = Inr (args', v') \<Longrightarrow>
     ar_net_cpu args' = (case last_arg (CHR ''n'') os of Some a \<Rightarrow> stoi a | None \<Rightarrow> ar_net_cpu args) \<and>
     ar_worker_cpu args' = (case last_arg (CHR ''w'') os of Some a \<Rightarrow> stoi a | None \<Rightarrow> ar_worker_cpu args) \<and>
     v' = v + length (filter (\<lambda>o1. fst o1 = CHR ''v'') os)"
proof (induction os arbitrary: args v fstk)
  case (Cons o1 os)
  obtain c a where o1: "o1 = (c, a)" by fastforce
  from Cons.prems show ?case unfolding o1
    by (auto dest!: Cons.IH split: if_splits option.splits)
qed simp

lemma read_opts_options:
  "read_opts fstk enabled pname os args v = Inr (args', v') \<Longrightarrow>
     fst ` set os \<subseteq> {CHR ''w'', CHR ''n'', CHR ''v''} \<union> (if fstk then {CHR ''c''} else {})"
proof (induction os arbitrary: args v fstk)
  case (Cons o1 os)
  obtain c a where o1: "o1 = (c, a)" by fastforce
  from Cons.prems show ?case unfolding o1
    by (auto dest!: Cons.IH split: if_splits option.splits)
qed simp

lemma get_config_key:
  "get_config g fstk enabled pname argv api level = Inr (c, level') \<Longrightarrow> api = Some (cf_api_key c) \<and> cf_api_key c \<noteq> []"
  by (auto simp: get_config_def Let_def split: sum.splits option.splits if_splits)

text \<open>Every option that the tables announce is one that the loop knows.\<close>

lemma options_known:
  "op_val ` set (long_opts fstk) \<union> (set (short_opts fstk enabled) - set ''+:'') \<subseteq> set ''hnwv'' \<union> (if fstk then set ''c'' else {})"
  by (auto simp: long_opts_def short_opts_def)

text \<open>Decimal numbers of the range of \<open>int\<close> are read back.\<close>

fun dec_nat :: "nat \<Rightarrow> string" where
  "dec_nat n = (if n < 10 then [char_of (48 + n)] else dec_nat (n div 10) @ [char_of (48 + n mod 10)])"

definition dec_int :: "int \<Rightarrow> string" where
  "dec_int i = (if i < 0 then CHR ''-'' # dec_nat (nat (- i)) else dec_nat (nat i))"

declare dec_nat.simps [simp del]

lemma digit_char:
  fixes d :: nat
  assumes "d < 10"
  shows "isdigit (char_of (48 + d))" "(of_char (char_of (48 + d) :: char) :: int) = 48 + int d"
proof -
  have n: "(of_char (char_of (48 + d) :: char) :: nat) = 48 + d" using assms by simp
  then show "isdigit (char_of (48 + d))" using assms by (simp add: isdigit_def)
  have "(of_char c :: int) = int (of_char c)" for c by (simp only: of_nat_of_char)
  with n show "(of_char (char_of (48 + d) :: char) :: int) = 48 + int d" by (metis of_nat_add of_nat_numeral)
qed

lemma digits_value_snoc: "digits_value (ds @ [c]) = 10 * digits_value ds + (of_char c - 48)"
  by (simp add: digits_value_def)

lemma dec_nat_digits: "list_all isdigit (dec_nat n) \<and> dec_nat n \<noteq> [] \<and> digits_value (dec_nat n) = int n"
proof (induction n rule: dec_nat.induct)
  case (1 n)
  show ?case
  proof (cases "n < 10")
    case True
    then show ?thesis using digit_char [OF True] by (simp add: dec_nat.simps [of n] digits_value_def)
  next
    case False
    have m: "n mod 10 < 10" by simp
    have "10 * int (n div 10) + int (n mod 10) = int n" by presburger
    with False 1 digit_char [OF m] show ?thesis by (simp add: dec_nat.simps [of n] digits_value_snoc)
  qed
qed

lemma digit_not_sign: "isdigit c \<Longrightarrow> \<not> isspace c \<and> c \<noteq> CHR ''-'' \<and> c \<noteq> CHR ''+''"
  by (auto simp: isdigit_def isspace_def)

lemma stoi_dec_int:
  assumes "- 2147483648 \<le> i" "i \<le> 2147483647"
    and True: "takeWhile isdigit rest = []"
  shows "stoi (dec_int i @ rest) = Some i"
proof -
  let ?ds = "dec_nat (nat \<bar>i\<bar>)"
  obtain d ds where d: "?ds = d # ds" using dec_nat_digits [of "nat \<bar>i\<bar>"] by (cases ?ds) auto
  have all: "list_all isdigit ?ds" and v: "digits_value ?ds = \<bar>i\<bar>" using dec_nat_digits [of "nat \<bar>i\<bar>"] by simp_all
  have tk: "takeWhile isdigit (?ds @ rest) = ?ds" using all True by (simp add: list_all_iff takeWhile_append2)
  have sgn: "\<not> isspace d" "d \<noteq> CHR ''-''" "d \<noteq> CHR ''+''" using all digit_not_sign [of d] by (simp_all add: d)
  show "stoi (dec_int i @ rest) = Some i"
  proof (cases "i < 0")
    case neg: True
    then have "dec_int i @ rest = CHR ''-'' # ?ds @ rest" by (simp add: dec_int_def)
    moreover have "\<not> isspace (CHR ''-'')" by (simp add: isspace_def)
    ultimately show ?thesis using tk v neg assms d by (simp add: stoi_def Let_def)
  next
    case False
    then have "dec_int i @ rest = ?ds @ rest" by (simp add: dec_int_def)
    then show ?thesis using tk v False assms sgn d by (simp add: stoi_def Let_def)
  qed
qed

end
