(* ===== verification/App.thy ===== *)
theory App
  imports Binance_Codec App_Config Reactor Tls
begin

text \<open>
  \<^verbatim>\<open>examples/main.cc\<close>: the network thread, the worker thread and the main thread of the example
  program, as one step relation on their common state.  A step is one access to what the threads
  share (the queue, the shutdown flag, a pending signal, the end of a thread), so that every
  interleaving of these accesses is a sequence of steps.  The system call behind \<open>pin_thread\<close>, the
  views and the queue are parameters; when \<open>Reactor::run\<close> returns is left open.
\<close>

section \<open>Output\<close>

definition depth_line :: "DepthEvent \<Rightarrow> string" where
  "depth_line e =
     dec_int (sint (event_time_ns e)) @ '': '' @ (if side e = Ask then ''A'' else ''B'') @ '' '' @
     dec_int (sint (qty e)) @ ''e'' @ dec_int (sint (qty_exp e)) @ '' @ '' @
     dec_int (sint (price e)) @ ''e'' @ dec_int (sint (price_exp e)) @ ''\<newline>''"

section \<open>Threads\<close>

text \<open>A CPU number outside the set is not recorded, as the macro \<open>CPU_SET\<close> checks the range.\<close>

definition pin_thread :: "(nat list \<Rightarrow> int) \<Rightarrow> int option \<Rightarrow> bool" where
  "pin_thread setaffinity opt_cpu_id =
     (case opt_cpu_id of
        None \<Rightarrow> True
      | Some cpu_id \<Rightarrow> setaffinity (if 0 \<le> cpu_id \<and> cpu_id < 1024 then [nat cpu_id] else []) = 0)"

datatype signal = SIGINT | SIGTERM | SIGUSR1

datatype net_pc = N_none | N_start | N_run | N_push "DepthEvent list" | N_kill | N_done

datatype worker_pc = W_none | W_start | W_check | W_front | W_pop DepthEvent | W_print DepthEvent | W_done

datatype main_pc =
  M_create_worker | M_create_net | M_no_net | M_no_net_join | M_wait | M_signal signal | M_join_net signal |
  M_store signal | M_join_worker signal | M_exit int | M_aborted

record 'w AppContext =
  ax_world :: 'w
  ax_net :: net_pc
  ax_worker :: worker_pc
  ax_main :: main_pc
  ax_shutdown :: bool
  ax_usr1 :: bool
  ax_stdout :: "string list"
  ax_pushed :: "DepthEvent list"
  ax_printed :: "DepthEvent list"
  ax_sig :: "signal option"

record 'w app_env =
  ae_sbe :: sbe
  ae_queue :: "'w spsc"
  ae_setaffinity :: "nat list \<Rightarrow> int"
  ae_config :: Config

definition app_start :: "'w \<Rightarrow> 'w AppContext" where
  "app_start w = \<lparr>ax_world = w, ax_net = N_none, ax_worker = W_none, ax_main = M_create_worker, ax_shutdown = False,
     ax_usr1 = False, ax_stdout = [], ax_pushed = [], ax_printed = [], ax_sig = None\<rparr>"

text \<open>The beginning of \<open>main\<close>: without a configuration no thread is started.\<close>

definition program_start ::
    "getopt \<Rightarrow> bool \<Rightarrow> bool \<Rightarrow> string \<Rightarrow> string list \<Rightarrow> string option \<Rightarrow> 'w \<Rightarrow> halt + Config \<times> LogLevel \<times> 'w AppContext" where
  "program_start getopt_long fstk enabled pname argv api w =
     (case get_config getopt_long fstk enabled pname argv api g_level of
        Inl h \<Rightarrow> Inl h
      | Inr (config, level) \<Rightarrow> Inr (config, level, app_start w))"

definition in_process :: "'w AppContext \<Rightarrow> bool" where
  "in_process a \<longleftrightarrow> (case ax_main a of M_exit _ \<Rightarrow> False | M_aborted \<Rightarrow> False | _ \<Rightarrow> True)"

definition exit_code :: "signal \<Rightarrow> int" where
  "exit_code sig = (if sig = SIGINT \<or> sig = SIGTERM then 0 else 1)"

text \<open>The connection that \<open>run_net\<close> asks the reactor for.\<close>

definition depth_connection :: "Config \<Rightarrow> 'w spsc \<Rightarrow> (string, 'w spsc ws_config) connection_config" where
  "depth_connection config queue =
     \<lparr>cc_host = ''stream-sbe.binance.com'', cc_port = 9443, cc_transport_config = ''stream-sbe.binance.com'',
      cc_protocol_config = \<lparr>wc_path = ''/ws/btcusdt@depth'', wc_extra = [\<lparr>h_name = ''X-MBX-APIKEY'', h_value = cf_api_key config\<rparr>],
        wc_codec_config = queue\<rparr>\<rparr>"

text \<open>
  The network thread.  Handling a message walks through its events; the other messages touch none of
  the shared state.
\<close>

inductive net_step :: "'w app_env \<Rightarrow> 'w AppContext \<Rightarrow> 'w AppContext \<Rightarrow> bool" for E where
  net_pin: "ax_net a = N_start \<Longrightarrow> pin_thread (ae_setaffinity E) (cf_net_cpu_id (ae_config E)) \<Longrightarrow>
    net_step E a (a\<lparr>ax_net := N_run\<rparr>)"
| net_abort: "ax_net a = N_start \<Longrightarrow> \<not> pin_thread (ae_setaffinity E) (cf_net_cpu_id (ae_config E)) \<Longrightarrow>
    net_step E a (a\<lparr>ax_main := M_aborted\<rparr>)"
| net_message: "ax_net a = N_run \<Longrightarrow> sbe_templateId (ae_sbe E) p = Some (DepthDiffEventId (ae_sbe E)) \<Longrightarrow>
    sbe_size_valid (ae_sbe E) p \<Longrightarrow> net_step E a (a\<lparr>ax_net := N_push (diff_events (sbe_diff (ae_sbe E) p))\<rparr>)"
| net_pushed: "ax_net a = N_push (e # es) \<Longrightarrow> try_push (ae_queue E) e (ax_world a) = (True, w) \<Longrightarrow>
    net_step E a (a\<lparr>ax_net := N_push es, ax_world := w, ax_pushed := ax_pushed a @ [e]\<rparr>)"
| net_full: "ax_net a = N_push (e # es) \<Longrightarrow> try_push (ae_queue E) e (ax_world a) = (False, w) \<Longrightarrow>
    net_step E a (a\<lparr>ax_net := N_run, ax_world := w\<rparr>)"
| net_last: "ax_net a = N_push [] \<Longrightarrow> net_step E a (a\<lparr>ax_net := N_run\<rparr>)"
| net_return: "ax_net a = N_run \<Longrightarrow> net_step E a (a\<lparr>ax_net := N_kill\<rparr>)"
| net_kill: "ax_net a = N_kill \<Longrightarrow> net_step E a (a\<lparr>ax_net := N_done, ax_usr1 := True\<rparr>)"

inductive worker_step :: "'w app_env \<Rightarrow> 'w AppContext \<Rightarrow> 'w AppContext \<Rightarrow> bool" for E where
  worker_pin: "ax_worker a = W_start \<Longrightarrow> pin_thread (ae_setaffinity E) (cf_worker_cpu_id (ae_config E)) \<Longrightarrow>
    worker_step E a (a\<lparr>ax_worker := W_check\<rparr>)"
| worker_abort: "ax_worker a = W_start \<Longrightarrow> \<not> pin_thread (ae_setaffinity E) (cf_worker_cpu_id (ae_config E)) \<Longrightarrow>
    worker_step E a (a\<lparr>ax_main := M_aborted\<rparr>)"
| worker_end: "ax_worker a = W_check \<Longrightarrow> ax_shutdown a \<Longrightarrow> worker_step E a (a\<lparr>ax_worker := W_done\<rparr>)"
| worker_go: "ax_worker a = W_check \<Longrightarrow> \<not> ax_shutdown a \<Longrightarrow> worker_step E a (a\<lparr>ax_worker := W_front\<rparr>)"
| worker_pause: "ax_worker a = W_front \<Longrightarrow> front (ae_queue E) (ax_world a) = None \<Longrightarrow>
    worker_step E a (a\<lparr>ax_worker := W_check\<rparr>)"
| worker_front: "ax_worker a = W_front \<Longrightarrow> front (ae_queue E) (ax_world a) = Some e \<Longrightarrow>
    worker_step E a (a\<lparr>ax_worker := W_pop e\<rparr>)"
| worker_pop: "ax_worker a = W_pop e \<Longrightarrow>
    worker_step E a (a\<lparr>ax_worker := W_print e, ax_world := pop (ae_queue E) (ax_world a)\<rparr>)"
| worker_print: "ax_worker a = W_print e \<Longrightarrow>
    worker_step E a (a\<lparr>ax_worker := W_check, ax_stdout := ax_stdout a @ [depth_line e], ax_printed := ax_printed a @ [e]\<rparr>)"

text \<open>
  The main thread.  The signals of the set may come from outside at any time; \<open>SIGUSR1\<close> is also what
  the network thread sends.
\<close>

inductive main_step :: "'w AppContext \<Rightarrow> 'w AppContext \<Rightarrow> bool" where
  main_worker: "ax_main a = M_create_worker \<Longrightarrow> main_step a (a\<lparr>ax_main := M_create_net, ax_worker := W_start\<rparr>)"
| main_no_worker: "ax_main a = M_create_worker \<Longrightarrow> main_step a (a\<lparr>ax_main := M_exit 1\<rparr>)"
| main_net: "ax_main a = M_create_net \<Longrightarrow> main_step a (a\<lparr>ax_main := M_wait, ax_net := N_start\<rparr>)"
| main_no_net: "ax_main a = M_create_net \<Longrightarrow> main_step a (a\<lparr>ax_main := M_no_net\<rparr>)"
| main_no_net_store: "ax_main a = M_no_net \<Longrightarrow> main_step a (a\<lparr>ax_main := M_no_net_join, ax_shutdown := True\<rparr>)"
| main_no_net_exit: "ax_main a = M_no_net_join \<Longrightarrow> ax_worker a = W_done \<Longrightarrow> main_step a (a\<lparr>ax_main := M_exit 1\<rparr>)"
| main_sigwait: "ax_main a = M_wait \<Longrightarrow> sig \<noteq> SIGUSR1 \<Longrightarrow> main_step a (a\<lparr>ax_main := M_signal sig, ax_sig := Some sig\<rparr>)"
| main_usr1: "ax_main a = M_wait \<Longrightarrow> ax_usr1 a \<Longrightarrow>
    main_step a (a\<lparr>ax_main := M_join_net SIGUSR1, ax_usr1 := False, ax_sig := Some SIGUSR1\<rparr>)"
| main_usr1_sent: "ax_main a = M_wait \<Longrightarrow> main_step a (a\<lparr>ax_main := M_join_net SIGUSR1, ax_sig := Some SIGUSR1\<rparr>)"
| main_signal: "ax_main a = M_signal sig \<Longrightarrow> main_step a (a\<lparr>ax_main := M_join_net sig\<rparr>)"
| main_join_net: "ax_main a = M_join_net sig \<Longrightarrow> ax_net a = N_done \<Longrightarrow> main_step a (a\<lparr>ax_main := M_store sig\<rparr>)"
| main_store: "ax_main a = M_store sig \<Longrightarrow> main_step a (a\<lparr>ax_main := M_join_worker sig, ax_shutdown := True\<rparr>)"
| main_return: "ax_main a = M_join_worker sig \<Longrightarrow> ax_worker a = W_done \<Longrightarrow>
    main_step a (a\<lparr>ax_main := M_exit (exit_code sig)\<rparr>)"

inductive app_step :: "'w app_env \<Rightarrow> 'w AppContext \<Rightarrow> 'w AppContext \<Rightarrow> bool" for E where
  step_net: "in_process a \<Longrightarrow> net_step E a b \<Longrightarrow> app_step E a b"
| step_worker: "in_process a \<Longrightarrow> worker_step E a b \<Longrightarrow> app_step E a b"
| step_main: "in_process a \<Longrightarrow> main_step a b \<Longrightarrow> app_step E a b"

end
