(* ===== verification/App_Props.thy ===== *)
theory App_Props
  imports App Tls_Props
begin

text \<open>
  The properties of the example program: what the worker prints against what the network thread
  pushed, how the program ends, and the composition of its codec with the secure connection.
\<close>

section \<open>The invariant of the threads\<close>

fun held :: "worker_pc \<Rightarrow> DepthEvent list" where
  "held (W_print e) = [e]"
| "held _ = []"

definition fifo_inv :: "('w \<Rightarrow> DepthEvent list) \<Rightarrow> 'w AppContext \<Rightarrow> bool" where
  "fifo_inv contents a \<longleftrightarrow>
     ax_pushed a = ax_printed a @ held (ax_worker a) @ contents (ax_world a) \<and>
     ax_stdout a = map depth_line (ax_printed a) \<and>
     (\<forall>e. ax_worker a = W_pop e \<longrightarrow> contents (ax_world a) \<noteq> [] \<and> hd (contents (ax_world a)) = e)"

text \<open>What the main thread knows of the other two at each of its points.\<close>

definition main_inv :: "'w AppContext \<Rightarrow> bool" where
  "main_inv a \<longleftrightarrow>
     (ax_worker a = W_done \<longrightarrow> ax_shutdown a) \<and>
     (ax_shutdown a \<longrightarrow> ax_net a \<in> {N_none, N_done}) \<and>
     (case ax_main a of
        M_create_worker \<Rightarrow> ax_worker a = W_none \<and> ax_net a = N_none \<and> \<not> ax_shutdown a
      | M_create_net \<Rightarrow> ax_net a = N_none \<and> \<not> ax_shutdown a
      | M_no_net \<Rightarrow> ax_net a = N_none
      | M_no_net_join \<Rightarrow> ax_net a = N_none \<and> ax_sig a = None
      | M_wait \<Rightarrow> \<not> ax_shutdown a
      | M_signal sig \<Rightarrow> \<not> ax_shutdown a \<and> ax_sig a = Some sig
      | M_join_net sig \<Rightarrow> \<not> ax_shutdown a \<and> ax_sig a = Some sig
      | M_store sig \<Rightarrow> ax_net a = N_done \<and> ax_sig a = Some sig
      | M_join_worker sig \<Rightarrow> ax_net a = N_done \<and> ax_sig a = Some sig
      | M_exit code \<Rightarrow> ax_net a \<in> {N_none, N_done} \<and> ax_worker a \<in> {W_none, W_done} \<and>
          code = (case ax_sig a of None \<Rightarrow> 1 | Some sig \<Rightarrow> exit_code sig)
      | M_aborted \<Rightarrow> True) \<and>
     (ax_main a \<in> {M_create_worker, M_create_net, M_no_net} \<longrightarrow> ax_sig a = None)"

lemma fifo_start: "contents w = [] \<Longrightarrow> fifo_inv contents (app_start w)"
  by (simp add: fifo_inv_def app_start_def)

lemma main_start: "main_inv (app_start w)"
  by (simp add: main_inv_def app_start_def)

lemma fifo_net:
  assumes "spsc_ok (ae_queue E) contents limit" "net_step E a b" "fifo_inv contents a"
  shows "fifo_inv contents b"
  using assms(2,3) by cases (auto simp: fifo_inv_def dest!: spsc_push(2) [OF assms(1)])

lemma fifo_worker:
  assumes "spsc_ok (ae_queue E) contents limit" "worker_step E a b" "fifo_inv contents a"
  shows "fifo_inv contents b"
  using assms(2)
proof cases
  case (worker_front e)
  with spsc_front [OF assms(1) worker_front(3)] assms(3) show ?thesis by (simp add: fifo_inv_def)
next
  case (worker_pop e)
  have "contents (ax_world a) \<noteq> [] \<longrightarrow> contents (pop (ae_queue E) (ax_world a)) = tl (contents (ax_world a))"
    using assms(1) unfolding spsc_ok_def by blast
  with worker_pop assms(3) show ?thesis by (cases "contents (ax_world a)") (auto simp: fifo_inv_def)
qed (use assms(3) in \<open>auto simp: fifo_inv_def\<close>)

lemma fifo_main:
  assumes "main_step a b" "main_inv a" "fifo_inv contents a"
  shows "fifo_inv contents b"
  using assms(1) by cases (use assms(2,3) in \<open>simp_all add: fifo_inv_def main_inv_def\<close>)

lemma main_inv_net:
  assumes "net_step E a b" "in_process a" "main_inv a"
  shows "main_inv b"
  using assms(1) by cases (use assms(2,3) in \<open>cases "ax_main a"; simp add: main_inv_def in_process_def\<close>)+

lemma main_inv_worker:
  assumes "worker_step E a b" "in_process a" "main_inv a"
  shows "main_inv b"
  using assms(1) by cases (use assms(2,3) in \<open>cases "ax_main a"; simp add: main_inv_def in_process_def\<close>)+

lemma main_inv_main:
  assumes "main_step a b" "main_inv a"
  shows "main_inv b"
  using assms(1) by cases (use assms(2) in \<open>auto simp: main_inv_def\<close>)

lemma app_inv:
  assumes "spsc_ok (ae_queue E) contents limit" "(app_step E)\<^sup>*\<^sup>* (app_start w) a" "contents w = []"
  shows "fifo_inv contents a \<and> main_inv a"
  using assms(2)
proof (induction rule: rtranclp_induct)
  case base
  show ?case using assms(3) by (simp add: fifo_start main_start)
next
  case (step b c)
  from step(2) show ?case
    by cases (use step(3) in \<open>auto intro: fifo_net [OF assms(1)] fifo_worker [OF assms(1)] fifo_main main_inv_net main_inv_worker main_inv_main\<close>)
qed

section \<open>The steps of a message are the calls of the codec\<close>

definition same_but_push :: "'w AppContext \<Rightarrow> 'w \<Rightarrow> DepthEvent list \<Rightarrow> net_pc \<Rightarrow> 'w AppContext" where
  "same_but_push a w es pc = a\<lparr>ax_net := pc, ax_world := w, ax_pushed := ax_pushed a @ es\<rparr>"

lemma same_but_push_net: "(same_but_push a w es pc)\<lparr>ax_net := pc'\<rparr> = same_but_push a w es pc'"
  by (cases a) (simp add: same_but_push_def)

lemma push_levels_steps:
  assumes "push_levels (ae_queue E) diff sd ls (ax_world a) = (ok, w')"
    and "ax_net a = N_push (map (depth_event diff sd) ls @ others)"
  shows "\<exists>es. (net_step E)\<^sup>*\<^sup>* a (same_but_push a w' es (if ok then N_push others else N_run))"
  using assms
proof (induction ls arbitrary: a)
  case Nil
  then have "same_but_push a w' [] (N_push others) = a" "ok" by (simp_all add: same_but_push_def)
  then show ?case by (intro exI [of _ "[]"]) simp
next
  case (Cons l ls)
  let ?e = "depth_event diff sd l" and ?es = "map (depth_event diff sd) ls @ others"
  obtain k w1 where p: "try_push (ae_queue E) ?e (ax_world a) = (k, w1)" by fastforce
  have pc: "ax_net a = N_push (?e # ?es)" using Cons.prems(2) by simp
  show ?case
  proof (cases k)
    case True
    let ?b = "a\<lparr>ax_net := N_push ?es, ax_world := w1, ax_pushed := ax_pushed a @ [?e]\<rparr>"
    have s: "net_step E a ?b" using net_pushed [OF pc] p True by simp
    obtain es where t: "(net_step E)\<^sup>*\<^sup>* ?b (same_but_push ?b w' es (if ok then N_push others else N_run))"
      using Cons.IH [of ?b] Cons.prems(1) p True by auto
    have e: "same_but_push ?b w' es pc = same_but_push a w' (?e # es) pc" for pc
      by (cases a) (simp add: same_but_push_def)
    from converse_rtranclp_into_rtranclp [of "net_step E", OF s t] show ?thesis unfolding e by (rule exI)
  next
    case False
    then have "ok = False" "w' = w1" using Cons.prems(1) p by simp_all
    with net_full [OF pc] p False have "net_step E a (same_but_push a w' [] (if ok then N_push others else N_run))"
      by (simp add: same_but_push_def)
    then have "(net_step E)\<^sup>*\<^sup>* a (same_but_push a w' [] (if ok then N_push others else N_run))" by (rule r_into_rtranclp)
    then show ?thesis by (rule exI)
  qed
qed

lemma push_diff_steps:
  assumes "ax_net a = N_push (diff_events diff)" "push_diff (ae_queue E) diff (ax_world a) = (st, w')"
  shows "\<exists>es. (net_step E)\<^sup>*\<^sup>* a (same_but_push a w' es N_run)"
proof -
  obtain k w1 where p: "push_levels (ae_queue E) diff Ask (asks diff) (ax_world a) = (k, w1)" by fastforce
  obtain k2 w2 where p2: "push_levels (ae_queue E) diff Bid (bids diff) w1 = (k2, w2)" by fastforce
  let ?bids = "map (depth_event diff Bid) (bids diff)"
  obtain es where s: "(net_step E)\<^sup>*\<^sup>* a (same_but_push a w1 es (if k then N_push ?bids else N_run))"
    using push_levels_steps [OF p] assms(1) unfolding diff_events_def by blast
  show ?thesis
  proof (cases k)
    case True
    let ?b = "same_but_push a w1 es (N_push ?bids)"
    have b: "ax_world ?b = w1" "ax_net ?b = N_push (?bids @ [])" by (simp_all add: same_but_push_def)
    obtain es2 where s2: "(net_step E)\<^sup>*\<^sup>* ?b (same_but_push ?b w2 es2 (if k2 then N_push [] else N_run))"
      using push_levels_steps [OF _ b(2)] p2 unfolding b(1) by blast
    have w: "w' = w2" using assms(2) p p2 True by (simp add: push_diff_def)
    have e: "same_but_push ?b w2 es2 pc = same_but_push a w' (es @ es2) pc" for pc
      by (cases a) (simp add: same_but_push_def w)
    have s3: "(net_step E)\<^sup>*\<^sup>* (same_but_push a w' (es @ es2) (if k2 then N_push [] else N_run)) (same_but_push a w' (es @ es2) N_run)"
      using net_last [of "same_but_push a w' (es @ es2) (N_push [])" E, unfolded same_but_push_net]
      by (auto simp: same_but_push_def)
    have "(net_step E)\<^sup>*\<^sup>* a ?b" using s True by simp
    from rtranclp_trans [OF rtranclp_trans [OF this s2 [unfolded e]] s3] show ?thesis by (rule exI)
  next
    case False
    with assms(2) p have "w' = w1" by (simp add: push_diff_def)
    with s False show ?thesis by (intro exI [of _ es]) simp
  qed
qed

section \<open>A sample run\<close>

text \<open>A message of four levels meets the queue of three; one event is printed before the program is stopped.\<close>

definition sample_app :: "DepthEvent list app_env" where
  "sample_app = \<lparr>ae_sbe = sample_sbe, ae_queue = list_spsc, ae_setaffinity = (\<lambda>_. 0),
     ae_config = \<lparr>cf_net_config = None, cf_api_key = ''k'', cf_net_cpu_id = Some 2, cf_worker_cpu_id = None\<rparr>\<rparr>"

definition sample_depth :: "nat \<Rightarrow> DepthEvent" where
  "sample_depth k = diff_events sample_diff ! k"

lemma sample_depths: "diff_events sample_diff = [sample_depth 0, sample_depth 1, sample_depth 2, sample_depth 3]"
  by (simp add: sample_depth_def diff_events_def sample_diff_def)

lemmas sample_app_simps = sample_app_def list_spsc_def app_start_def in_process_def pin_thread_def exit_code_def

lemmas app_run_step =
  converse_rtranclp_into_rtranclp [of "app_step sample_app", OF step_net]
  converse_rtranclp_into_rtranclp [of "app_step sample_app", OF step_worker]
  converse_rtranclp_into_rtranclp [of "app_step sample_app", OF step_main]

lemma sample_run:
  "\<exists>a. (app_step sample_app)\<^sup>*\<^sup>* (app_start []) a \<and> ax_main a = M_exit 0 \<and>
     ax_sig a = Some SIGINT \<and> ax_printed a = [sample_depth 0] \<and> ax_pushed a = [sample_depth 0, sample_depth 1, sample_depth 2]"
  apply (intro exI conjI)
      apply (rule app_run_step(3), simp add: sample_app_simps, rule main_step.main_worker, simp add: sample_app_simps)
      apply (rule app_run_step(3), simp add: sample_app_simps, rule main_step.main_net, simp add: sample_app_simps)
      apply (rule app_run_step(1), simp add: sample_app_simps, rule net_pin, simp add: sample_app_simps, simp add: sample_app_simps)
      apply (rule app_run_step(1), simp add: sample_app_simps,
        rule net_message [where p = "[0, 0, 19, 39, 0, 0, 0, 0]"], simp, simp add: sample_app_simps sample_sbe_def, simp add: sample_app_simps sample_sbe_def)
      apply (rule app_run_step(1), simp add: sample_app_simps,
        rule net_pushed [where e = "sample_depth 0" and w = "[sample_depth 0]"],
        simp add: sample_app_simps sample_sbe_def sample_depths, simp add: sample_app_simps)
      apply (rule app_run_step(2), simp add: sample_app_simps, rule worker_pin, simp add: sample_app_simps, simp add: sample_app_simps)
      apply (rule app_run_step(2), simp add: sample_app_simps, rule worker_go, simp, simp add: sample_app_simps)
      apply (rule app_run_step(1), simp add: sample_app_simps,
        rule net_pushed [where e = "sample_depth 1" and w = "[sample_depth 0, sample_depth 1]"], simp, simp add: sample_app_simps)
      apply (rule app_run_step(2), simp add: sample_app_simps, rule worker_front [where e = "sample_depth 0"], simp, simp add: sample_app_simps)
      apply (rule app_run_step(1), simp add: sample_app_simps,
        rule net_pushed [where e = "sample_depth 2" and w = "[sample_depth 0, sample_depth 1, sample_depth 2]"], simp, simp add: sample_app_simps)
      apply (rule app_run_step(1), simp add: sample_app_simps,
        rule net_full [where e = "sample_depth 3" and w = "[sample_depth 0, sample_depth 1, sample_depth 2]"], simp, simp add: sample_app_simps)
      apply (rule app_run_step(2), simp add: sample_app_simps, rule worker_pop [where e = "sample_depth 0"], simp)
      apply (rule app_run_step(2), simp add: sample_app_simps, rule worker_print [where e = "sample_depth 0"], simp)
      apply (rule app_run_step(3), simp add: sample_app_simps, rule main_sigwait [where sig = SIGINT], simp add: sample_app_simps, simp)
      apply (rule app_run_step(3), simp add: sample_app_simps, rule main_signal [where sig = SIGINT], simp)
      apply (rule app_run_step(1), simp add: sample_app_simps, rule net_return, simp)
      apply (rule app_run_step(1), simp add: sample_app_simps, rule net_kill, simp)
      apply (rule app_run_step(3), simp add: sample_app_simps, rule main_join_net [where sig = SIGINT], simp, simp)
      apply (rule app_run_step(3), simp add: sample_app_simps, rule main_store [where sig = SIGINT], simp)
      apply (rule app_run_step(2), simp add: sample_app_simps, rule worker_end, simp, simp)
      apply (rule app_run_step(3), simp add: sample_app_simps, rule main_return [where sig = SIGINT], simp, simp)
      apply (rule rtranclp.rtrancl_refl)
     apply (simp_all add: sample_app_simps)
  done

section \<open>Properties\<close>

lemma binance_buffers_safe:
  assumes "ssl_wf S" "we_codec E = BinanceDepth V" "lifecycle (tls_templ N R S (WebSocket E)) c"
  shows "buffer_ok (c_rx c) \<and> buffer_ok (c_tx c)"
proof -
  have "codec_ok (we_codec E)" by (simp add: assms(2) BinanceDepth_ok)
  from tls_ws.buffers_safe [OF assms(1) this _ _ assms(3)] show ?thesis by (simp add: tls_templ_def)
qed

text \<open>
  C15: the worker prints what was pushed, in order and once.  In every interleaving of the three
  threads the events pushed so far are the events printed, the event in the worker's hands and the
  contents of the queue, in this order, and the output is the lines of the events printed.
\<close>

theorem app_fifo:
  assumes "spsc_ok (ae_queue E) contents limit" "(app_step E)\<^sup>*\<^sup>* (app_start w) a" "contents w = []"
  shows "ax_pushed a = ax_printed a @ held (ax_worker a) @ contents (ax_world a) \<and>
     ax_stdout a = map depth_line (ax_printed a)"
  using app_inv [OF assms] by (simp add: fifo_inv_def)

theorem app_fifo_witness:
  "\<exists>a. (app_step sample_app)\<^sup>*\<^sup>* (app_start []) a \<and> ax_printed a = [sample_depth 0] \<and> ax_stdout a = [depth_line (sample_depth 0)]"
proof -
  from sample_run obtain a where a: "(app_step sample_app)\<^sup>*\<^sup>* (app_start []) a" "ax_main a = M_exit 0"
    "ax_printed a = [sample_depth 0]" by blast
  have "spsc_ok (ae_queue sample_app) (\<lambda>w. w) 3" using list_spsc_ok by (simp add: sample_app_def)
  from app_fifo [OF this a(1)] a show ?thesis by (intro exI [of _ a]) simp
qed

text \<open>
  C16: how the program ends.  When \<open>main\<close> returns both threads have ended or were never started, the
  result is 0 exactly after an interrupt or a request to terminate, and what the worker has not
  printed is what is left in the queue.
\<close>

theorem app_exit:
  assumes "spsc_ok (ae_queue E) contents limit" "(app_step E)\<^sup>*\<^sup>* (app_start w) a" "contents w = []" "ax_main a = M_exit code"
  shows "ax_net a \<in> {N_none, N_done} \<and> ax_worker a \<in> {W_none, W_done} \<and>
     (code = 0 \<longleftrightarrow> ax_sig a \<in> {Some SIGINT, Some SIGTERM}) \<and> ax_pushed a = ax_printed a @ contents (ax_world a)"
proof -
  note inv = app_inv [OF assms(1-3)]
  then have m: "ax_net a \<in> {N_none, N_done}" "ax_worker a \<in> {W_none, W_done}"
    "code = (case ax_sig a of None \<Rightarrow> 1 | Some sig \<Rightarrow> exit_code sig)"
    using assms(4) by (simp_all add: main_inv_def)
  from m(2) inv have "ax_pushed a = ax_printed a @ contents (ax_world a)" by (auto simp: fifo_inv_def)
  moreover from m(3) have "code = 0 \<longleftrightarrow> ax_sig a \<in> {Some SIGINT, Some SIGTERM}"
    by (auto simp: exit_code_def split: option.splits if_splits)
  ultimately show ?thesis using m(1,2) by blast
qed

theorem app_exit_witness:
  "\<exists>a. (app_step sample_app)\<^sup>*\<^sup>* (app_start []) a \<and> ax_worker a \<in> {W_none, W_done} \<and> ax_sig a = Some SIGINT \<and> ax_printed a = [sample_depth 0] \<and>
     ax_world a = [sample_depth 1, sample_depth 2]"
proof -
  from sample_run obtain a where a: "(app_step sample_app)\<^sup>*\<^sup>* (app_start []) a" "ax_main a = M_exit 0"
    "ax_sig a = Some SIGINT" "ax_printed a = [sample_depth 0]" "ax_pushed a = [sample_depth 0, sample_depth 1, sample_depth 2]" by blast
  have "spsc_ok (ae_queue sample_app) (\<lambda>w. w) 3" using list_spsc_ok by (simp add: sample_app_def)
  from app_exit [OF this a(1) _ a(2)] a show ?thesis by (intro exI [of _ a]) simp
qed

text \<open>
  C17: what a successful start has read.  When the program gets past its configuration, the key is the
  non-empty value of the environment variable, each CPU number is the one of the last such option (and
  none without one), only known options were given, and in a debug build one \<open>v\<close> sets the level to
  \<open>info\<close> and more set it to \<open>trace\<close>.
\<close>

theorem config_read:
  assumes "program_start g fstk enabled pname argv api w = Inr (c, level, a)"
    and "os = g (short_opts fstk enabled) (long_opts fstk) argv"
  shows "api = Some (cf_api_key c) \<and> cf_api_key c \<noteq> [] \<and>
     cf_net_cpu_id c = Option.bind (last_arg (CHR ''n'') os) stoi \<and>
     cf_worker_cpu_id c = Option.bind (last_arg (CHR ''w'') os) stoi \<and>
     fst ` set os \<subseteq> {CHR ''w'', CHR ''n'', CHR ''v''} \<union> (if fstk then {CHR ''c''} else {}) \<and>
     level = (let v = length (filter (\<lambda>o1. fst o1 = CHR ''v'') os) in
       if \<not> enabled \<or> v = 0 then L_warn else if v = 1 then L_info else L_trace) \<and> a = app_start w"
proof -
  have g: "get_config g fstk enabled pname argv api g_level = Inr (c, level)" and a: "a = app_start w"
    using assms(1) by (auto simp: program_start_def split: sum.splits)
  then obtain args v where r: "read_opts fstk enabled pname os
      \<lparr>ar_net_config = None, ar_net_cpu = None, ar_worker_cpu = None\<rparr> 0 = Inr (args, v)"
    and c: "cf_net_cpu_id c = ar_net_cpu args" "cf_worker_cpu_id c = ar_worker_cpu args"
      "level = (if v \<noteq> 0 then set_level enabled (if v = 1 then L_info else L_trace) g_level else g_level)"
    by (auto simp: get_config_def read_args_def assms(2) Let_def split: sum.splits if_splits)
  note l = read_opts_last [OF r]
  have "cf_net_cpu_id c = Option.bind (last_arg (CHR ''n'') os) stoi"
    "cf_worker_cpu_id c = Option.bind (last_arg (CHR ''w'') os) stoi"
    using l c(1,2) by (auto split: option.splits)
  moreover have "level = (let v = length (filter (\<lambda>o1. fst o1 = CHR ''v'') os) in
       if \<not> enabled \<or> v = 0 then L_warn else if v = 1 then L_info else L_trace)"
    using l c(3) by (simp add: set_level_def g_level_def Let_def)
  ultimately show ?thesis using get_config_key [OF g] read_opts_options [OF r] a by blast
qed

definition sample_getopt :: getopt where
  "sample_getopt sopts lopts argv =
     (if argv = [''--net-cpu'', ''3'', ''-v'', ''--net-cpu'', ''12''] then [(CHR ''n'', ''3''), (CHR ''v'', []), (CHR ''n'', ''12'')] else [])"

theorem config_read_witness:
  "\<exists>c a. program_start sample_getopt False True ''app''
       [''--net-cpu'', ''3'', ''-v'', ''--net-cpu'', ''12''] (Some ''key'') () = Inr (c, L_info, a) \<and>
     cf_net_cpu_id c = Some 12 \<and> cf_worker_cpu_id c = None"
proof -
  let ?argv = "[''--net-cpu'', ''3'', ''-v'', ''--net-cpu'', ''12'']"
  have n: "stoi ''3'' = Some 3" "stoi ''12'' = Some 12" by code_simp+
  obtain c level a where p: "program_start sample_getopt False True ''app'' ?argv (Some ''key'') () = Inr (c, level, a)"
    by (simp add: program_start_def get_config_def read_args_def sample_getopt_def n)
  from config_read [OF p refl] p n show ?thesis by (simp add: sample_getopt_def)
qed

end
