(* ===== verification/Spec2Isabelle.thy ===== *)
theory Spec2Isabelle
  imports Epoll_Props Fstack_Props Hexdump Websocket_Type App_Props
begin

text \<open>
  Verification of \<^verbatim>\<open>manet\<close>, a C++ library for event-driven network clients: a reactor that polls a
  network backend and drives a fixed set of connections, each made of a transport (plain TCP or TLS)
  and a protocol (a WebSocket client with a user's codec), and an example program on top of it.

  \<^bold>\<open>How the parts interact.\<close>  \<open>Reactor::run\<close> initialises the backend, attaches every connection
  and calls the loop.  A turn of the loop polls the backend, finds the connection of each event
  through the cookie given at subscription, and calls \<open>handle_event\<close>.  The connection runs its state
  machine: it dials, performs the transport handshake, hands received bytes to the protocol, writes
  what the protocol put into the transmit buffer, and subscribes for the next event.  The WebSocket
  session parses frames out of the receive buffer and calls the codec.  The example's codec pushes
  market events into a queue that a second thread prints.

  \<^bold>\<open>Conventions.\<close>  Code outside the repository (the system calls, F-Stack, OpenSSL, the resolver, SHA1,
  the random device, the views that \<open>sbepp\<close> generates, the queue of \<open>rigtorp\<close>) is a record of
  functions on an abstract world that the definitions take as an argument; what the code relies on
  are predicates on that record (\<open>net_wf\<close>, \<open>live_net\<close>, \<open>ssl_wf\<close>, \<open>kernel_ok\<close>, \<open>kqueue_ok\<close>,
  \<open>spsc_ok\<close>, \<open>codec_ok\<close>), each with a concrete instance on which the properties are applied.
  The template arguments of \<open>Connection\<close> are records as well, collected in \<open>templ\<close>.  A result
  \<open>None\<close> stands for undefined behaviour, for the end of the program, and for a loop that does not
  end, so a theorem with a \<open>Some\<close> result says that the call returns.

  \<^bold>\<open>The theories and the code.\<close>
  \<^item> \<open>Manet_Prelude\<close>: machine types, error numbers, the two status enumerations
    (\<^verbatim>\<open>transport/status.hpp\<close>, \<^verbatim>\<open>protocol/status.hpp\<close>) and shared lemmas, among them the calculi
    \<open>ensures\<close> (partial) and \<open>returns\<close> (total correctness) for the option monad.
  \<^item> \<open>Buffer\<close>: \<^verbatim>\<open>reactor/buffer.hpp\<close>, \<^verbatim>\<open>reactor/io.hpp\<close>.  A buffer refines a queue of bytes
    (locale \<open>byte_fifo\<close>).
  \<^item> \<open>Net\<close>, \<open>Transport\<close>, \<open>Protocol\<close>: the concepts of \<^verbatim>\<open>net/\<close>, \<^verbatim>\<open>transport/\<close> and \<^verbatim>\<open>protocol/\<close>, \<open>dial\<close>
    and the plain transport.  The locales \<open>transport_laws\<close>, \<open>stream_transport\<close> and
    \<open>protocol_laws\<close> are what a connection needs of its parts.
  \<^item> \<open>Connection\<close>: every member function of \<^verbatim>\<open>reactor/connection.hpp\<close>; a log of the calls on the
    descriptor is kept beside the state.  \<open>Connection_Inv\<close> shows the invariants along the call graph,
    \<open>Connection_Live\<close> termination (locale \<open>live_templ\<close>), \<open>Connection_Frame\<close> that lawful parts keep the
    buffers in range (locale \<open>lawful_parts\<close>) and that what the handlers of a session keep holds for good, \<open>Connection_Props\<close> the properties.
  \<^item> \<open>Ws_Frame\<close>, \<open>Base64\<close>, \<open>Ws_Handshake\<close>, \<open>Websocket\<close>, \<open>Websocket_Props\<close>, \<open>Websocket_Type\<close>:
    \<^verbatim>\<open>protocol/websocket*.hpp\<close>, \<^verbatim>\<open>websocket.cc\<close> and \<^verbatim>\<open>utils/base64.hpp\<close>.  Parsing against an encoder of
    frames, the handshake, reassembly of fragments, replies to control frames,
    and the type invariant of the session.
  \<^item> \<open>Reactor\<close>, \<open>Reactor_Inv\<close>, \<open>Reactor_Props\<close>: \<^verbatim>\<open>reactor.hpp\<close> over a list of connections that
    share one world.  Routing, shutdown, restart, heartbeat and termination of a turn.
  \<^item> \<open>Tls\<close>, \<open>Tls_Props\<close>: \<^verbatim>\<open>transport/tls.hpp\<close>, \<^verbatim>\<open>tls_bio.hpp\<close> and their sources.  The endpoint's
    pointer is indeterminate, live or dangling.
  \<^item> \<open>Backend\<close>, \<open>Epoll\<close>, \<open>Epoll_Props\<close>, \<open>Fstack\<close>, \<open>Fstack_Props\<close>: the two backends of \<^verbatim>\<open>net/\<close> and the
    contract they share (locales \<open>event_backend\<close>, \<open>clearing_backend\<close>).
  \<^item> \<open>Hexdump\<close>, \<open>Logging\<close>: \<^verbatim>\<open>utils/hexdump.cc\<close>, \<^verbatim>\<open>logging.hpp\<close>.
  \<^item> \<open>Binance_Codec\<close>, \<open>App_Config\<close>, \<open>App\<close>, \<open>App_Props\<close>: the example program under \<^verbatim>\<open>examples/\<close>; its
    three threads are step relations on their shared state.
  \<^item> \<open>Sample_Env\<close>: concrete environments on which the properties are applied.

  \<^bold>\<open>What the theorems show.\<close>  Every life of a connection opens, subscribes and closes its descriptor in
  order, leaves a subscription in every waiting state and moves forward only; with a live backend
  every operation returns.  The reactor finds the connection of each event, stops every connection on
  the stop signal and leaves finished ones alone.  Frames, Base64, hex dumps and control frames can be
  read back; the handshake accepts what it must and nothing with another key; fragments are
  reassembled and, with the example's codec, end up in the queue in order; the worker prints them once
  and in order.  Another group of theorems pins down inputs on which the code fails: a frame length
  that wraps, a TLS connection that fails before it is up, a stop signal that F-Stack never delivers,
  and others.

  \<^bold>\<open>Bounds.\<close>  Nothing uses fuel: loops that may not end are partial functions in the option monad,
  the others terminate structurally.  Buffer sizes are parameters below \<open>2 ^ 31\<close> and the size of the
  message buffer is a parameter (\<open>MSG_CAP\<close> in the code), so that the properties hold for every size
  and concrete runs can use small ones.

  \<^bold>\<open>Not modelled.\<close>  Calls of the logger inside the components (they change nothing the components read)
  and the mutex of the logger; failing allocations, and with them the exception handler of
  \<open>Reactor::run\<close>; the loop of \<open>ff_run\<close>, which F-Stack owns; the order in memory of
  the atomic operations (the steps of the threads are interleaved); the parsing of \<open>argv\<close> by
  \<open>getopt_long\<close>; \<open>load_ed25519_key\<close>, which is called nowhere; the tests and the build files.
\<close>

end
